theory Spec2Isabelle
  imports Complex_Main "HOL-Library.Sublist"
begin

section \<open>Binary64 rounding\<close>

text \<open>
  A finite JavaScript number is an IEEE 754 binary64 value: an integer multiple \<open>m * 2^(e - 52)\<close>
  with \<open>|m| < 2^53\<close> and \<open>- 1022 \<le> e \<le> 1023\<close>. It is modelled by the real it denotes (the
  sign of zero is not modelled), and every arithmetic operation rounds its exact result to
  the nearest such value, ties to the even multiple.

  \<open>binade n a\<close> searches the exponents \<open>n - 1022\<close> down to \<open>- 1021\<close> for the largest \<open>e\<close> with
  \<open>2^e \<le> a\<close>, and is \<open>- 1022\<close> when there is none (the subnormal range). \<open>expo x\<close> is the
  exponent whose spacing \<open>ulp x\<close> the neighbours of \<open>x\<close> have.
\<close>

fun binade :: "nat \<Rightarrow> real \<Rightarrow> int" where
  "binade 0 a = - 1022"
| "binade (Suc k) a =
     (if 2 powi (int (Suc k) - 1022) \<le> a then int (Suc k) - 1022 else binade k a)"

definition expo :: "real \<Rightarrow> int" where
  "expo x = binade 2045 \<bar>x\<bar>"

definition ulp :: "real \<Rightarrow> real" where
  "ulp x = 2 powi (expo x - 52)"

definition round_even :: "real \<Rightarrow> int" where
  "round_even q =
     (let f = \<lfloor>q\<rfloor>; r = q - of_int f
      in if r < 1 / 2 then f
         else if 1 / 2 < r then f + 1
         else if even f then f else f + 1)"

text \<open>
  \<open>rnd x\<close> is the binary64 value nearest to \<open>x\<close> when the exponent range is unbounded above;
  a result of magnitude \<open>2^1024\<close> or more is an overflow.
\<close>

definition rnd :: "real \<Rightarrow> real" where
  "rnd x = of_int (round_even (x / ulp x)) * ulp x"

section \<open>JavaScript numbers\<close>

text \<open>
  A JavaScript \<open>number\<close> is a finite binary64 value, one of the two infinities, or
  not-a-number. \<open>js_of_real x\<close> is the number that an operation with exact result \<open>x\<close>
  returns: \<open>x\<close> rounded, or an infinity on overflow. The operations below follow IEEE 754
  on the special values.
\<close>

datatype jsnum = NaN | NegInf | Fin real | PosInf

definition js_of_real :: "real \<Rightarrow> jsnum" where
  "js_of_real x =
     (if 2 ^ 1024 \<le> \<bar>rnd x\<bar> then (if 0 < x then PosInf else NegInf) else Fin (rnd x))"

fun isFinite :: "jsnum \<Rightarrow> bool" where
  "isFinite (Fin x) = True"
| "isFinite _ = False"

fun js_gt :: "jsnum \<Rightarrow> jsnum \<Rightarrow> bool" where
  "js_gt NaN _ = False"
| "js_gt _ NaN = False"
| "js_gt NegInf _ = False"
| "js_gt (Fin x) NegInf = True"
| "js_gt (Fin x) (Fin y) = (x > y)"
| "js_gt (Fin x) PosInf = False"
| "js_gt PosInf PosInf = False"
| "js_gt PosInf _ = True"

fun js_mul :: "jsnum \<Rightarrow> jsnum \<Rightarrow> jsnum" where
  "js_mul NaN _ = NaN"
| "js_mul _ NaN = NaN"
| "js_mul (Fin x) (Fin y) = js_of_real (x * y)"
| "js_mul (Fin x) PosInf = (if x = 0 then NaN else if x > 0 then PosInf else NegInf)"
| "js_mul (Fin x) NegInf = (if x = 0 then NaN else if x > 0 then NegInf else PosInf)"
| "js_mul PosInf (Fin y) = (if y = 0 then NaN else if y > 0 then PosInf else NegInf)"
| "js_mul NegInf (Fin y) = (if y = 0 then NaN else if y > 0 then NegInf else PosInf)"
| "js_mul PosInf PosInf = PosInf"
| "js_mul NegInf NegInf = PosInf"
| "js_mul PosInf NegInf = NegInf"
| "js_mul NegInf PosInf = NegInf"

fun js_div :: "jsnum \<Rightarrow> jsnum \<Rightarrow> jsnum" where
  "js_div NaN _ = NaN"
| "js_div _ NaN = NaN"
| "js_div (Fin x) (Fin y) =
     (if y = 0 then (if x = 0 then NaN else if x > 0 then PosInf else NegInf)
      else js_of_real (x / y))"
| "js_div (Fin x) PosInf = Fin 0"
| "js_div (Fin x) NegInf = Fin 0"
| "js_div PosInf (Fin y) = (if y \<ge> 0 then PosInf else NegInf)"
| "js_div NegInf (Fin y) = (if y \<ge> 0 then NegInf else PosInf)"
| "js_div PosInf _ = NaN"
| "js_div NegInf _ = NaN"

fun js_sub :: "jsnum \<Rightarrow> jsnum \<Rightarrow> jsnum" where
  "js_sub NaN _ = NaN"
| "js_sub _ NaN = NaN"
| "js_sub (Fin x) (Fin y) = js_of_real (x - y)"
| "js_sub (Fin x) PosInf = NegInf"
| "js_sub (Fin x) NegInf = PosInf"
| "js_sub PosInf PosInf = NaN"
| "js_sub PosInf _ = PosInf"
| "js_sub NegInf NegInf = NaN"
| "js_sub NegInf _ = NegInf"

fun js_min :: "jsnum \<Rightarrow> jsnum \<Rightarrow> jsnum" where
  "js_min NaN _ = NaN"
| "js_min _ NaN = NaN"
| "js_min NegInf _ = NegInf"
| "js_min _ NegInf = NegInf"
| "js_min (Fin x) (Fin y) = Fin (min x y)"
| "js_min (Fin x) PosInf = Fin x"
| "js_min PosInf y = y"

fun js_max :: "jsnum \<Rightarrow> jsnum \<Rightarrow> jsnum" where
  "js_max NaN _ = NaN"
| "js_max _ NaN = NaN"
| "js_max PosInf _ = PosInf"
| "js_max _ PosInf = PosInf"
| "js_max (Fin x) (Fin y) = Fin (max x y)"
| "js_max (Fin x) NegInf = Fin x"
| "js_max NegInf y = y"

fun js_abs :: "jsnum \<Rightarrow> jsnum" where
  "js_abs NaN = NaN"
| "js_abs NegInf = PosInf"
| "js_abs (Fin x) = Fin \<bar>x\<bar>"
| "js_abs PosInf = PosInf"

text \<open>\<open>a || b\<close> on numbers: \<open>0\<close> and \<open>NaN\<close> are falsy.\<close>

fun js_or :: "jsnum \<Rightarrow> jsnum \<Rightarrow> jsnum" where
  "js_or NaN b = b"
| "js_or (Fin x) b = (if x = 0 then b else Fin x)"
| "js_or a b = a"

fun isNaN :: "jsnum \<Rightarrow> bool" where
  "isNaN NaN = True"
| "isNaN _ = False"

text \<open>
  \<open>parseFloat(x.toFixed(digits))\<close> on a finite number \<open>x\<close>: \<open>toFixed\<close> picks the integer \<open>n\<close>
  with \<open>n / 10^digits\<close> closest to the exact value of \<open>|x|\<close> (the larger one on a tie) and
  keeps the sign, and \<open>parseFloat\<close> returns the number nearest to that decimal. From
  \<open>10^21\<close> on \<open>toFixed\<close> prints the number itself.
\<close>

definition toFixedNum :: "nat \<Rightarrow> real \<Rightarrow> real" where
  "toFixedNum digits x =
     (if \<bar>x\<bar> \<ge> 10 ^ 21 then x
      else rnd (sgn x * real_of_int \<lfloor>\<bar>x\<bar> * 10 ^ digits + 1 / 2\<rfloor> / 10 ^ digits))"

fun js_toFixedNum :: "nat \<Rightarrow> jsnum \<Rightarrow> jsnum" where
  "js_toFixedNum digits (Fin x) = Fin (toFixedNum digits x)"
| "js_toFixedNum digits v = v"

section \<open>Window framer\<close>

text \<open>
  JavaScript's \<open>Array.prototype.slice(start, end)\<close>: a negative index counts from the end
  of the array, and both indices are clamped to the array.
\<close>

definition slice :: "'a list \<Rightarrow> int \<Rightarrow> int \<Rightarrow> 'a list" where
  "slice xs start fin =
     (let len = int (length xs);
          k = (if start < 0 then max (len + start) 0 else min start len);
          final = (if fin < 0 then max (len + fin) 0 else min fin len)
      in take (nat (final - k)) (drop (nat k) xs))"

function createWindows_loop :: "real list \<Rightarrow> int \<Rightarrow> int \<Rightarrow> real list list" where
  "createWindows_loop data windowSize i =
     (if i \<le> int (length data) - windowSize
      then slice data i (i + windowSize) # createWindows_loop data windowSize (i + 1)
      else [])"
  by pat_completeness auto
termination
  by (relation "measure (\<lambda>(data, w, i). nat (int (length data) - w + 1 - i))") auto

definition createWindows :: "real list \<Rightarrow> int \<Rightarrow> real list list" where
  "createWindows data windowSize = createWindows_loop data windowSize 0"

declare createWindows_loop.simps [simp del]

text \<open>
  \<open>normalizeWindows\<close>: one global minimum and maximum over all values of all windows.
  \<open>Math.min(...flat)\<close> starts from \<open>Infinity\<close> and \<open>Math.max(...flat)\<close> from \<open>-Infinity\<close>, and
  either is \<open>NaN\<close> as soon as one value is. \<open>max - min || 1\<close> replaces a zero (or \<open>NaN\<close>)
  range by \<open>1\<close>; the two subtractions and the division round as every binary64
  operation does, and overflow to an infinity. The fields \<open>min\<close> and \<open>max\<close> of the result
  are called \<open>nw_min\<close> and \<open>nw_max\<close>. An engine's limit on the number of arguments that a
  spread call accepts is not modelled.
\<close>

definition Math_min :: "jsnum list \<Rightarrow> jsnum" where
  "Math_min values = fold (\<lambda>v m. js_min m v) values PosInf"

definition Math_max :: "jsnum list \<Rightarrow> jsnum" where
  "Math_max values = fold (\<lambda>v m. js_max m v) values NegInf"

record NormalizedWindows =
  normalized :: "jsnum list list"
  nw_min :: jsnum
  nw_max :: jsnum

definition normalizeWindows :: "jsnum list list \<Rightarrow> NormalizedWindows" where
  "normalizeWindows windows =
     (let flat = concat windows;
          mn = Math_min flat;
          mx = Math_max flat;
          range = js_or (js_sub mx mn) (Fin 1)
      in \<lparr> normalized = map (map (\<lambda>v. js_div (js_sub v mn) range)) windows,
           nw_min = mn, nw_max = mx \<rparr>)"

section \<open>Signal generator and series importer\<close>

text \<open>
  \<open>SoilDataPoint\<close>. The generator produces finite moisture values (\<open>real\<close>); the importer
  keeps whatever \<open>parseFloat\<close> returned, so its moisture is a JavaScript number and the
  not-a-number filter at its end has something to test.
\<close>

record 'n SoilDataPoint =
  timestamp :: int
  moisture :: 'n
  isAnomaly :: bool

subsection \<open>\<open>generateSoilData\<close>\<close>







subsection \<open>\<open>parseCSV\<close>\<close>

text \<open>
  Strings are lists of bytes, the UTF-8 encoding of the text. \<open>trim\<close> removes from both
  ends the white space and line terminators of ECMAScript: tab, line feed, vertical tab,
  form feed, carriage return, space, and beyond ASCII the characters U+00A0, U+1680,
  U+2000 to U+200A, U+2028, U+2029, U+202F, U+205F, U+3000 and U+FEFF, each given by its
  bytes. \<open>strip\<close> removes such characters from the front, one at a time. \<open>toLowerCase\<close>
  maps \<open>A\<close>..\<open>Z\<close>; characters beyond ASCII are left alone.
\<close>

definition white_space :: "string list" where
  "white_space =
     [[CHR 0x09], [CHR 0x0A], [CHR 0x0B], [CHR 0x0C], [CHR 0x0D], [CHR 0x20],
      [CHR 0xC2, CHR 0xA0],
      [CHR 0xE1, CHR 0x9A, CHR 0x80],
      [CHR 0xE2, CHR 0x80, CHR 0x80], [CHR 0xE2, CHR 0x80, CHR 0x81],
      [CHR 0xE2, CHR 0x80, CHR 0x82], [CHR 0xE2, CHR 0x80, CHR 0x83],
      [CHR 0xE2, CHR 0x80, CHR 0x84], [CHR 0xE2, CHR 0x80, CHR 0x85],
      [CHR 0xE2, CHR 0x80, CHR 0x86], [CHR 0xE2, CHR 0x80, CHR 0x87],
      [CHR 0xE2, CHR 0x80, CHR 0x88], [CHR 0xE2, CHR 0x80, CHR 0x89],
      [CHR 0xE2, CHR 0x80, CHR 0x8A],
      [CHR 0xE2, CHR 0x80, CHR 0xA8], [CHR 0xE2, CHR 0x80, CHR 0xA9],
      [CHR 0xE2, CHR 0x80, CHR 0xAF],
      [CHR 0xE2, CHR 0x81, CHR 0x9F],
      [CHR 0xE3, CHR 0x80, CHR 0x80],
      [CHR 0xEF, CHR 0xBB, CHR 0xBF]]"

function strip :: "string list \<Rightarrow> string \<Rightarrow> string" where
  "strip tokens s =
     (case find (\<lambda>w. w \<noteq> [] \<and> prefix w s) tokens of
        None \<Rightarrow> s
      | Some w \<Rightarrow> strip tokens (drop (length w) s))"
  by pat_completeness auto
termination
proof (relation "measure (\<lambda>(tokens, s). length s)")
  show "wf (measure (\<lambda>(tokens, s). length s))" by simp
next
  fix tokens :: "string list" and s w :: string
  assume "find (\<lambda>w. w \<noteq> [] \<and> prefix w s) tokens = Some w"
  then have "w \<noteq> []" "prefix w s" by (auto simp: find_Some_iff)
  then have "0 < length w" "length w \<le> length s" by (simp_all add: prefix_length_le)
  then have "length s - length w < length s" by linarith
  then show "((tokens, drop (length w) s), (tokens, s)) \<in> measure (\<lambda>(tokens, s). length s)"
    by simp
qed

declare strip.simps [simp del]

definition trim :: "string \<Rightarrow> string" where
  "trim s = rev (strip (map rev white_space) (rev (strip white_space s)))"

definition toLowerCase :: "string \<Rightarrow> string" where
  "toLowerCase s =
     map (\<lambda>c. let code = (of_char c :: nat)
              in if 65 \<le> code \<and> code \<le> 90 then char_of (code + 32) else c) s"

fun includes_str :: "string \<Rightarrow> string \<Rightarrow> bool" where
  "includes_str [] sub = (sub = [])"
| "includes_str (c # s) sub = (prefix sub (c # s) \<or> includes_str s sub)"

text \<open>\<open>s.split(sep)\<close> for a one-character separator: always at least one piece.\<close>

fun split :: "string \<Rightarrow> char \<Rightarrow> string list" where
  "split [] sep = [[]]"
| "split (c # s) sep =
     (if c = sep then [] # split s sep
      else (case split s sep of [] \<Rightarrow> [[c]] | piece # pieces \<Rightarrow> (c # piece) # pieces))"

text \<open>
  The built-ins \<open>parseFloat\<close> and \<open>parseInt\<close> are parameters: \<open>parseFloat\<close> returns any
  JavaScript number, \<open>parseInt\<close> an integer or \<open>None\<close> for \<open>NaN\<close>. Reading \<open>parts[1]\<close> of a
  line without a comma gives \<open>undefined\<close>, which \<open>parseFloat\<close> converts to the string
  \<open>undefined\<close> first.
\<close>

definition part_at :: "string list \<Rightarrow> nat \<Rightarrow> string" where
  "part_at parts k = (if k < length parts then parts ! k else ''undefined'')"

definition parseLine ::
  "(string \<Rightarrow> jsnum) \<Rightarrow> (string \<Rightarrow> int option) \<Rightarrow> bool \<Rightarrow> nat \<times> string \<Rightarrow> jsnum SoilDataPoint" where
  "parseLine parseFloat parseInt hasMoisture = (\<lambda>(i, line).
     let parts = map trim (split line CHR '','') in
     if hasMoisture
     then \<lparr> timestamp = (case parseInt (part_at parts 0) of
                           None \<Rightarrow> int i
                         | Some t \<Rightarrow> if t = 0 then int i else t),
            moisture = js_or (parseFloat (part_at parts 1)) (Fin 50),
            isAnomaly = False \<rparr>
     else \<lparr> timestamp = int i,
            moisture = js_or (parseFloat (part_at parts 0)) (Fin 50),
            isAnomaly = False \<rparr>)"

definition parseCSV ::
  "(string \<Rightarrow> jsnum) \<Rightarrow> (string \<Rightarrow> int option) \<Rightarrow> string \<Rightarrow> jsnum SoilDataPoint list" where
  "parseCSV parseFloat parseInt csvText =
     (case split (trim csvText) CHR 0x0A of
        [] \<Rightarrow> []
      | first # rest \<Rightarrow>
          let header = toLowerCase first;
              hasMoisture = includes_str header ''moisture''
          in filter (\<lambda>p. \<not> isNaN (moisture p))
               (map (parseLine parseFloat parseInt hasMoisture) (enumerate 0 rest)))"

section \<open>Autoencoder training\<close>

text \<open>
  TensorFlow.js is outside the repository; what \<open>trainAutoencoder\<close> needs of it is a
  parameter. \<open>tensor2d_ok\<close> says whether \<open>tf.tensor2d\<close> accepts the windows (it throws
  otherwise), \<open>fit_ok windows epochs batchSize\<close> whether \<open>model.fit\<close> runs to its end on
  them (it rejects otherwise), and \<open>epoch_loss windows batchSize epoch\<close> is the
  \<open>logs?.loss\<close> that \<open>model.fit\<close> reports after the given epoch (\<open>None\<close> when the log
  has no loss). \<open>fit\<close> is the library's contract for a run that succeeds: it runs
  \<open>epochs\<close> epochs and calls the \<open>onEpochEnd\<close> callback once after each, with the
  zero-based epoch number.
\<close>

record TF =
  tensor2d_ok :: "jsnum list list \<Rightarrow> bool"
  fit_ok :: "jsnum list list \<Rightarrow> nat \<Rightarrow> nat \<Rightarrow> bool"
  epoch_loss :: "jsnum list list \<Rightarrow> nat \<Rightarrow> nat \<Rightarrow> jsnum option"

definition fit :: "(nat \<Rightarrow> jsnum option) \<Rightarrow> nat \<Rightarrow> (nat \<Rightarrow> jsnum option \<Rightarrow> 'a \<Rightarrow> 'a) \<Rightarrow> 'a \<Rightarrow> 'a" where
  "fit logs epochs callback s = fold (\<lambda>epoch. callback epoch (logs epoch)) [0 ..< epochs] s"

text \<open>
  \<open>TrainingConfig\<close>: every field is optional. The caller's \<open>onEpochEnd\<close> receives the
  one-based epoch, the loss and the progress in percent, and acts on the caller's state.
\<close>

record 's TrainingConfig =
  epochs :: "nat option"
  batchSize :: "nat option"
  learningRate :: "real option"
  onEpochEnd :: "(nat \<Rightarrow> jsnum \<Rightarrow> int \<Rightarrow> 's \<Rightarrow> 's) option"

datatype train_error = TensorError | FitError | NotEnoughNormalData

definition Math_round :: "real \<Rightarrow> int" where
  "Math_round x = \<lfloor>x + 1 / 2\<rfloor>"

text \<open>
  \<open>trainAutoencoder\<close> returns the loss history and the caller's state after the
  callbacks. The destructuring defaults are \<open>epochs = 50\<close> and \<open>batchSize = 32\<close>. The
  network is always \<open>buildAutoencoder(10)\<close>, whose first layer has \<open>inputShape: [10]\<close>, so
  \<open>model.fit\<close> rejects a tensor whose rows are not 10 wide; this and every other rejection
  of \<open>model.fit\<close> is the error \<open>FitError\<close>. The progress is computed in double precision
  (the epoch numbers are integers, exact as doubles): the quotient is rounded, then the
  product with 100, and \<open>Math.round\<close> rounds that double to the nearest integer, halves
  upwards. The module's \<open>model\<close> and \<open>isModelTrained\<close> slots, which only inference reads,
  are not part of the model.
\<close>

definition trainAutoencoder ::
  "TF \<Rightarrow> jsnum list list \<Rightarrow> 's TrainingConfig \<Rightarrow> 's \<Rightarrow> train_error + (jsnum list \<times> 's)" where
  "trainAutoencoder tf normalWindows config s =
     (let epochs' = (case epochs config of None \<Rightarrow> 50 | Some e \<Rightarrow> e);
          batchSize' = (case batchSize config of None \<Rightarrow> 32 | Some b \<Rightarrow> b)
      in if \<not> tensor2d_ok tf normalWindows then Inl TensorError
         else if \<not> list_all (\<lambda>w. length w = 10) normalWindows
                 \<or> \<not> fit_ok tf normalWindows epochs' batchSize' then Inl FitError
         else Inr (fit (epoch_loss tf normalWindows batchSize') epochs'
                (\<lambda>epoch logs (lossHistory, s).
                   let loss = (case logs of None \<Rightarrow> Fin 0 | Some l \<Rightarrow> l);
                       progress = Math_round (rnd (rnd (real (epoch + 1) / real epochs') * 100))
                   in (lossHistory @ [loss],
                       case onEpochEnd config of
                         None \<Rightarrow> s
                       | Some f \<Rightarrow> f (epoch + 1) loss progress s))
                ([], s)))"

text \<open>
  \<open>handleTrain\<close> of the page: the state it touches, the selection of the training windows
  and the call of \<open>trainAutoencoder\<close> with 60 epochs. It does nothing when no data has
  been generated.
\<close>

record TrainingView =
  trainingProgress :: int
  trainingLoss :: jsnum
  isTrained :: bool

definition normalIndices :: "'n SoilDataPoint list \<Rightarrow> jsnum list list \<Rightarrow> nat list" where
  "normalIndices soilData normalizedWindows =
     filter (\<lambda>i. \<not> isAnomaly (soilData ! i) \<and> i < length normalizedWindows)
       [0 ..< length soilData]"

datatype 'a handled = NotStarted | TrainingFailed train_error | Trained 'a

definition handleTrain ::
  "TF \<Rightarrow> 'n SoilDataPoint list \<Rightarrow> NormalizedWindows option \<Rightarrow> TrainingView
     \<Rightarrow> (jsnum list list \<times> jsnum list \<times> TrainingView) handled" where
  "handleTrain tf soilData normalizedRef view =
     (case normalizedRef of
        None \<Rightarrow> NotStarted
      | Some current \<Rightarrow>
          if length soilData = 0 then NotStarted
          else
            let view0 = view \<lparr> trainingProgress := 0, isTrained := False \<rparr>;
                normalWindows = map (\<lambda>i. normalized current ! i)
                                  (normalIndices soilData (normalized current))
            in if length normalWindows < 10 then TrainingFailed NotEnoughNormalData
               else
                 (case trainAutoencoder tf normalWindows
                         \<lparr> epochs = Some 60, batchSize = Some 32, learningRate = None,
                           onEpochEnd = Some (\<lambda>epoch loss progress v.
                             v \<lparr> trainingProgress := progress, trainingLoss := loss \<rparr>) \<rparr>
                         view0 of
                    Inl e \<Rightarrow> TrainingFailed e
                  | Inr (lossHistory, view1) \<Rightarrow>
                      Trained (normalWindows, lossHistory, view1 \<lparr> isTrained := True \<rparr>)))"

section \<open>Anomaly classifier and metrics evaluator\<close>

record DetectionResult =
  windowIndex :: nat
  timestampCenter :: int
  reconstructionError :: real
  isAnomaly :: bool
  confidence :: jsnum

text \<open>
  \<open>detectAnomalies\<close>: \<open>errors.map((error, i) => ...)\<close>. The errors are finite numbers, the
  threshold is any JavaScript number, and \<open>windowSize\<close> need not be an integer. The
  confidence is computed in binary64 arithmetic: \<open>threshold * 2\<close>, the division and the
  subtraction each round. The local \<open>maxError\<close> of the source is never read and is left out.
\<close>

definition detectAnomalies :: "real list \<Rightarrow> jsnum \<Rightarrow> real \<Rightarrow> DetectionResult list" where
  "detectAnomalies errors threshold windowSize =
     map (\<lambda>(i, error).
        let isAnomaly = js_gt (Fin error) threshold;
            confidence =
              (if isAnomaly
               then js_min (Fin 1) (js_div (Fin error) (js_mul threshold (Fin 2)))
               else js_min (Fin 1) (js_sub (Fin 1) (js_div (Fin error) threshold)))
        in \<lparr> windowIndex = i,
             timestampCenter = int i + \<lfloor>windowSize / 2\<rfloor>,
             reconstructionError = error,
             isAnomaly = isAnomaly,
             confidence = js_toFixedNum 3 confidence \<rparr>)
       (enumerate 0 errors)"

record PerformanceMetrics =
  accuracy :: real
  precision :: real
  recall :: real
  f1Score :: real
  truePositives :: nat
  trueNegatives :: nat
  falsePositives :: nat
  falseNegatives :: nat
  totalAnomalies :: nat
  detectedAnomalies :: nat

text \<open>
  \<open>groundTruth[gtIndex]\<close> in a boolean context: an index outside the array reads
  \<open>undefined\<close>, which is falsy.
\<close>

definition groundTruth_at :: "bool list \<Rightarrow> int \<Rightarrow> bool" where
  "groundTruth_at groundTruth j = (0 \<le> j \<and> j < int (length groundTruth) \<and> groundTruth ! nat j)"

text \<open>One step of the \<open>forEach\<close> over the detections: the four counters.\<close>

definition tally :: "bool list \<Rightarrow> DetectionResult \<Rightarrow> nat \<times> nat \<times> nat \<times> nat \<Rightarrow> nat \<times> nat \<times> nat \<times> nat" where
  "tally groundTruth det = (\<lambda>(tp, tn, fp, fn).
     let gtIndex = min (timestampCenter det) (int (length groundTruth) - 1);
         actualAnomaly = groundTruth_at groundTruth gtIndex
     in if isAnomaly det \<and> actualAnomaly then (tp + 1, tn, fp, fn)
        else if \<not> isAnomaly det \<and> \<not> actualAnomaly then (tp, tn + 1, fp, fn)
        else if isAnomaly det \<and> \<not> actualAnomaly then (tp, tn, fp + 1, fn)
        else (tp, tn, fp, fn + 1))"

text \<open>
  \<open>computeMetrics\<close>. The ratios are at most 1 and the percentages at most 100, so none of
  the operations overflows and \<open>rnd\<close> alone gives their results.
\<close>

definition computeMetrics :: "DetectionResult list \<Rightarrow> bool list \<Rightarrow> real \<Rightarrow> PerformanceMetrics" where
  "computeMetrics detections groundTruth windowSize =
     (case fold (tally groundTruth) detections (0, 0, 0, 0) of (tp, tn, fp, fn) \<Rightarrow>
        let total = tp + tn + fp + fn;
            accuracy = (if total > 0 then rnd (real (tp + tn) / real total) else 0);
            precision = (if tp + fp > 0 then rnd (real tp / real (tp + fp)) else 0);
            recall = (if tp + fn > 0 then rnd (real tp / real (tp + fn)) else 0);
            f1Score = (if rnd (precision + recall) > 0
                       then rnd (rnd (rnd (2 * precision) * recall) / rnd (precision + recall))
                       else 0);
            totalAnomalies = length (filter (\<lambda>b. b) groundTruth);
            detectedAnomalies = length (filter isAnomaly detections)
        in \<lparr> accuracy = toFixedNum 1 (rnd (accuracy * 100)),
             precision = toFixedNum 1 (rnd (precision * 100)),
             recall = toFixedNum 1 (rnd (recall * 100)),
             f1Score = toFixedNum 1 (rnd (f1Score * 100)),
             truePositives = tp,
             trueNegatives = tn,
             falsePositives = fp,
             falseNegatives = fn,
             totalAnomalies = totalAnomalies,
             detectedAnomalies = detectedAnomalies \<rparr>)"

section \<open>Insight engine\<close>

datatype severity = Warning | Critical | Info | Success

datatype icon =
  CheckMark | Siren | ChartUp | ChartDown | Droplet | RainCloud
  | Desert | WaterWave | Seedling | Target | HighVoltage

text \<open>
  \<open>Insight\<close>. The \<open>type\<close> field is called \<open>severity\<close> here, \<open>timestamp\<close> is the \<open>Date\<close> of the
  run (\<open>now\<close>, a parameter), and the icons are named instead of spelled as emoji.
\<close>

record Insight =
  id :: string
  type :: severity
  icon :: icon
  message :: string
  timestamp :: nat
  timestep :: "int option"

text \<open>The three characters beyond ASCII that the messages use, as UTF-8 bytes.\<close>

definition right_arrow :: string where
  "right_arrow = [CHR 0xE2, CHR 0x86, CHR 0x92]"

definition minus_sign :: string where
  "minus_sign = [CHR 0xE2, CHR 0x88, CHR 0x92]"

definition em_dash :: string where
  "em_dash = [CHR 0xE2, CHR 0x80, CHR 0x94]"

text \<open>
  The number formatters are parameters: \<open>toFixed digits x\<close> is \<open>x.toFixed(digits)\<close>, and
  \<open>toString i\<close> prints an integer inside a template string.
\<close>

record Formatter =
  toFixed :: "nat \<Rightarrow> jsnum \<Rightarrow> string"
  toString :: "int \<Rightarrow> string"

text \<open>Rule 3: one warning for every step between neighbours of more than 20 units.\<close>

definition spikeInsights :: "Formatter \<Rightarrow> nat \<Rightarrow> real SoilDataPoint list \<Rightarrow> Insight list" where
  "spikeInsights fmt now data =
     concat (map (\<lambda>i.
        let delta = moisture (data ! i) - moisture (data ! (i - 1)) in
        if \<bar>delta\<bar> > 20
        then
          let direction = (if delta > 0 then ''spike'' else ''drop'') in
          [\<lparr> id = ''spike-'' @ toString fmt (int i),
             type = Warning,
             icon = (if delta > 0 then ChartUp else ChartDown),
             message = ''Sudden '' @ direction @ '' detected at timestep '' @ toString fmt (int i)
               @ '': '' @ toFixed fmt 1 (Fin \<bar>delta\<bar>) @ '' unit change (''
               @ toFixed fmt 1 (Fin (moisture (data ! (i - 1)))) @ ''% '' @ right_arrow @ '' ''
               @ toFixed fmt 1 (Fin (moisture (data ! i))) @ ''%).'',
             timestamp = now,
             timestep = Some (int i) \<rparr>]
        else []) [1 ..< length data])"

text \<open>Rule 4: the trend over the last 20 samples.\<close>

definition trendInsights :: "Formatter \<Rightarrow> nat \<Rightarrow> real SoilDataPoint list \<Rightarrow> Insight list" where
  "trendInsights fmt now data =
     (let last20 = slice data (- 20) (int (length data)) in
      if length last20 \<ge> 20
      then
        let trend = moisture (last20 ! 19) - moisture (last20 ! 0) in
        if trend < - 10
        then [\<lparr> id = ''rapid-decrease'', type = Warning, icon = Droplet,
                message = ''Moisture decreasing rapidly over last 20 samples: '' @ minus_sign
                  @ toFixed fmt 1 (Fin \<bar>trend\<bar>) @ ''%. Consider irrigation.'',
                timestamp = now, timestep = None \<rparr>]
        else if trend > 10
        then [\<lparr> id = ''rapid-increase'', type = Info, icon = RainCloud,
                message = ''Moisture increasing steadily over last 20 samples: +''
                  @ toFixed fmt 1 (Fin trend) @ ''%. Possible rainfall or irrigation active.'',
                timestamp = now, timestep = None \<rparr>]
        else []
      else [])"

text \<open>Rule 5: the average moisture; \<open>data\<close> is not empty when this runs.\<close>

definition levelInsights :: "Formatter \<Rightarrow> nat \<Rightarrow> real SoilDataPoint list \<Rightarrow> Insight list" where
  "levelInsights fmt now data =
     (let avgMoisture = fold (\<lambda>d s. s + moisture d) data 0 / real (length data) in
      if avgMoisture < 30
      then [\<lparr> id = ''low-moisture'', type = Critical, icon = Desert,
              message = ''Average moisture critically low: '' @ toFixed fmt 1 (Fin avgMoisture)
                @ ''%. Immediate irrigation required.'',
              timestamp = now, timestep = None \<rparr>]
      else if avgMoisture > 70
      then [\<lparr> id = ''high-moisture'', type = Warning, icon = WaterWave,
              message = ''Average moisture high: '' @ toFixed fmt 1 (Fin avgMoisture)
                @ ''%. Risk of waterlogging '' @ em_dash @ '' reduce irrigation.'',
              timestamp = now, timestep = None \<rparr>]
      else [\<lparr> id = ''optimal-moisture'', type = Info, icon = Seedling,
              message = ''Average moisture optimal: '' @ toFixed fmt 1 (Fin avgMoisture)
                @ ''%. Ideal conditions for crop growth.'',
              timestamp = now, timestep = None \<rparr>])"

text \<open>Rule 6: the suggested threshold, 2.5 times the mean reconstruction error.\<close>

definition thresholdInsights :: "Formatter \<Rightarrow> nat \<Rightarrow> DetectionResult list \<Rightarrow> jsnum \<Rightarrow> Insight list" where
  "thresholdInsights fmt now detections threshold =
     (let avgError = fold (\<lambda>d s. s + reconstructionError d) detections 0
                       / real (max (length detections) 1);
          suggestedThreshold = avgError * 2.5
      in if js_gt (js_abs (js_sub (Fin suggestedThreshold) threshold)) (Fin 0.05)
            \<and> length detections > 0
         then [\<lparr> id = ''threshold-suggestion'', type = Info, icon = Target,
                 message = ''AI suggestion: adjust threshold to ''
                   @ toFixed fmt 3 (Fin suggestedThreshold)
                   @ '' for optimal detection (current: '' @ toFixed fmt 3 threshold @ '').'',
                 timestamp = now, timestep = None \<rparr>]
         else [])"

text \<open>
  Rule 7: the first three consecutive anomalous centres that span fewer than 15 timesteps;
  the loop stops at the first hit.
\<close>

function clusterScan :: "Formatter \<Rightarrow> nat \<Rightarrow> int list \<Rightarrow> nat \<Rightarrow> Insight list" where
  "clusterScan fmt now anomalyTimesteps i =
     (if int i < int (length anomalyTimesteps) - 2
      then
        if anomalyTimesteps ! (i + 2) - anomalyTimesteps ! i < 15
        then [\<lparr> id = ''cluster-'' @ toString fmt (int i), type = Critical, icon = HighVoltage,
                message = ''Anomaly cluster detected around timestep ''
                  @ toString fmt (anomalyTimesteps ! (i + 1))
                  @ ''. Persistent sensor fault or soil disturbance.'',
                timestamp = now, timestep = Some (anomalyTimesteps ! (i + 1)) \<rparr>]
        else clusterScan fmt now anomalyTimesteps (i + 1)
      else [])"
  by pat_completeness auto
termination
  by (relation "measure (\<lambda>(fmt, now, ts, i). length ts - i)") auto

declare clusterScan.simps [simp del]

text \<open>
  The insights in the order in which the rules push them (rules 1 to 7).
\<close>

definition ruleInsights ::
  "Formatter \<Rightarrow> nat \<Rightarrow> real SoilDataPoint list \<Rightarrow> DetectionResult list \<Rightarrow> jsnum \<Rightarrow> Insight list" where
  "ruleInsights fmt now data detections threshold =
     (let anomalyCount = length (filter isAnomaly detections);
          stable = (if anomalyCount = 0
                    then [\<lparr> id = ''stable'', type = Success, icon = CheckMark,
                            message = ''System stable. All moisture readings within normal parameters.'',
                            timestamp = now, timestep = None \<rparr>]
                    else []);
          anomalyRate = real anomalyCount / real (max (length detections) 1);
          highRate = (if anomalyRate > 0.15
                      then [\<lparr> id = ''high-rate'', type = Critical, icon = Siren,
                              message = ''High anomaly rate detected: ''
                                @ toFixed fmt 1 (Fin (anomalyRate * 100))
                                @ ''% of windows flagged. Sensor calibration recommended.'',
                              timestamp = now, timestep = None \<rparr>]
                      else []);
          anomalyTimesteps = map timestampCenter (filter isAnomaly detections)
      in stable @ highRate @ spikeInsights fmt now data @ trendInsights fmt now data
         @ levelInsights fmt now data @ thresholdInsights fmt now detections threshold
         @ clusterScan fmt now anomalyTimesteps 0)"

text \<open>
  \<open>Array.prototype.sort\<close> with a comparator. The language requires the sort to be stable,
  which fixes its result for a comparator that compares keys; it is modelled as an
  insertion sort that keeps equal elements in their order.
\<close>

fun insertCmp :: "('a \<Rightarrow> 'a \<Rightarrow> int) \<Rightarrow> 'a \<Rightarrow> 'a list \<Rightarrow> 'a list" where
  "insertCmp cmp x [] = [x]"
| "insertCmp cmp x (y # ys) = (if cmp x y \<le> 0 then x # y # ys else y # insertCmp cmp x ys)"

fun sortCmp :: "('a \<Rightarrow> 'a \<Rightarrow> int) \<Rightarrow> 'a list \<Rightarrow> 'a list" where
  "sortCmp cmp [] = []"
| "sortCmp cmp (x # xs) = insertCmp cmp x (sortCmp cmp xs)"

fun order :: "severity \<Rightarrow> int" where
  "order Critical = 0"
| "order Warning = 1"
| "order Info = 2"
| "order Success = 3"

definition generateInsights ::
  "Formatter \<Rightarrow> nat \<Rightarrow> real SoilDataPoint list \<Rightarrow> DetectionResult list \<Rightarrow> jsnum \<Rightarrow> Insight list" where
  "generateInsights fmt now data detections threshold =
     (if length data = 0 then []
      else slice (sortCmp (\<lambda>a b. order (type a) - order (type b))
                    (ruleInsights fmt now data detections threshold)) 0 8)"

section \<open>Properties\<close>

subsection \<open>Binary64 rounding\<close>

lemma binade_props:
  "- 1022 \<le> binade n a \<and> binade n a \<le> int n - 1022
   \<and> (- 1022 < binade n a \<longrightarrow> 2 powi binade n a \<le> a)
   \<and> (binade n a < int n - 1022 \<longrightarrow> a < 2 powi (binade n a + 1))"
proof (induction n)
  case 0
  show ?case by simp
next
  case (Suc k)
  show ?case
  proof (cases "2 powi (int (Suc k) - 1022) \<le> a")
    case True
    then show ?thesis by simp
  next
    case False
    then have b: "binade (Suc k) a = binade k a" by simp
    have lt: "a < 2 powi (int (Suc k) - 1022)" using False by simp
    have "a < 2 powi (binade k a + 1)" if "binade k a < int (Suc k) - 1022"
    proof (cases "binade k a < int k - 1022")
      case True
      then show ?thesis using Suc by blast
    next
      case False
      then have "binade k a + 1 = int (Suc k) - 1022" using Suc by simp
      then show ?thesis using lt by (simp only:)
    qed
    then show ?thesis unfolding b using Suc by auto
  qed
qed

lemma expo_range: "- 1022 \<le> expo x" "expo x \<le> 1023"
  using binade_props [of 2045 "\<bar>x\<bar>"] by (simp_all add: expo_def)

lemma expo_lower: "- 1022 < expo x \<Longrightarrow> 2 powi expo x \<le> \<bar>x\<bar>"
  using binade_props [of 2045 "\<bar>x\<bar>"] by (simp add: expo_def)

lemma expo_upper: "expo x < 1023 \<Longrightarrow> \<bar>x\<bar> < 2 powi (expo x + 1)"
  using binade_props [of 2045 "\<bar>x\<bar>"] by (simp add: expo_def)

lemma expo_eqI:
  assumes "- 1022 \<le> e" "e \<le> 1023"
    and lo: "- 1022 < e \<Longrightarrow> 2 powi e \<le> \<bar>x\<bar>"
    and hi: "e < 1023 \<Longrightarrow> \<bar>x\<bar> < 2 powi (e + 1)"
  shows "expo x = e"
proof (rule antisym)
  show "expo x \<le> e"
  proof (rule ccontr)
    assume "\<not> expo x \<le> e"
    then have gt: "e < expo x" by simp
    then have "2 powi expo x \<le> \<bar>x\<bar>" using assms(1) by (intro expo_lower) simp
    moreover have "\<bar>x\<bar> < 2 powi (e + 1)" using gt expo_range(2) [of x] by (intro hi) simp
    moreover have "(2::real) powi (e + 1) \<le> 2 powi expo x"
      using gt by (intro power_int_increasing) simp_all
    ultimately show False by linarith
  qed
  show "e \<le> expo x"
  proof (rule ccontr)
    assume "\<not> e \<le> expo x"
    then have gt: "expo x < e" by simp
    then have "2 powi e \<le> \<bar>x\<bar>" using expo_range(1) [of x] by (intro lo) simp
    moreover have "\<bar>x\<bar> < 2 powi (expo x + 1)" using gt assms(2) by (intro expo_upper) simp
    moreover have "(2::real) powi (expo x + 1) \<le> 2 powi e"
      using gt by (intro power_int_increasing) simp_all
    ultimately show False by linarith
  qed
qed

lemma expo_mono:
  assumes "\<bar>x\<bar> \<le> \<bar>y\<bar>"
  shows "expo x \<le> expo y"
proof (rule ccontr)
  assume "\<not> expo x \<le> expo y"
  then have gt: "expo y < expo x" by simp
  then have "2 powi expo x \<le> \<bar>x\<bar>" using expo_range(1) [of y] by (intro expo_lower) simp
  moreover have "\<bar>y\<bar> < 2 powi (expo y + 1)" using gt expo_range(2) [of x] by (intro expo_upper) simp
  moreover have "(2::real) powi (expo y + 1) \<le> 2 powi expo x"
    using gt by (intro power_int_increasing) simp_all
  ultimately show False using assms by linarith
qed

lemma ulp_pos: "0 < ulp x"
  by (simp add: ulp_def)

lemma round_even_of_int: "round_even (of_int n) = n"
  by (simp add: round_even_def)

lemma round_even_choice: "round_even q = \<lfloor>q\<rfloor> \<or> round_even q = \<lfloor>q\<rfloor> + 1"
  by (simp add: round_even_def Let_def)

lemma round_even_near: "\<bar>of_int (round_even q) - q\<bar> \<le> 1 / 2"
proof -
  have "of_int \<lfloor>q\<rfloor> \<le> q" "q < of_int \<lfloor>q\<rfloor> + 1" by linarith+
  then show ?thesis
    by (auto simp: round_even_def Let_def)
qed

lemma round_even_mono:
  assumes "q \<le> q'"
  shows "round_even q \<le> round_even q'"
proof (cases "\<lfloor>q\<rfloor> = \<lfloor>q'\<rfloor>")
  case True
  then show ?thesis using assms by (auto simp: round_even_def Let_def)
next
  case False
  then have "\<lfloor>q\<rfloor> + 1 \<le> \<lfloor>q'\<rfloor>" using floor_mono [OF assms] by simp
  moreover have "round_even q \<le> \<lfloor>q\<rfloor> + 1" using round_even_choice [of q] by auto
  moreover have "\<lfloor>q'\<rfloor> \<le> round_even q'" using round_even_choice [of q'] by auto
  ultimately show ?thesis by linarith
qed

lemma rnd_eval:
  "expo x = e \<Longrightarrow> rnd x = of_int (round_even (x / 2 powi (e - 52))) * 2 powi (e - 52)"
  by (simp add: rnd_def ulp_def)

lemma rnd_0: "rnd 0 = 0"
  by (simp add: rnd_def round_even_def)

lemma rnd_fixed:
  assumes "x / ulp x = of_int n"
  shows "rnd x = x"
proof -
  have "rnd x = of_int n * ulp x" by (simp add: rnd_def assms round_even_of_int)
  also have "\<dots> = x" using ulp_pos [of x] assms by (simp add: field_simps)
  finally show ?thesis .
qed

lemma rnd_nearest: "\<bar>rnd x - x\<bar> \<le> ulp x / 2"
proof -
  have "rnd x - x = (of_int (round_even (x / ulp x)) - x / ulp x) * ulp x"
    using ulp_pos [of x] by (simp add: rnd_def field_simps)
  then have "\<bar>rnd x - x\<bar> = \<bar>of_int (round_even (x / ulp x)) - x / ulp x\<bar> * ulp x"
    using ulp_pos [of x] by (simp add: abs_mult)
  also have "\<dots> \<le> (1 / 2) * ulp x"
    using round_even_near [of "x / ulp x"] ulp_pos [of x] by (intro mult_right_mono) simp_all
  finally show ?thesis by simp
qed

lemma rnd_nonneg:
  assumes "0 \<le> x"
  shows "0 \<le> rnd x"
proof -
  have "0 \<le> x / ulp x" using assms ulp_pos [of x] by simp
  then have "round_even 0 \<le> round_even (x / ulp x)" by (rule round_even_mono)
  then have "0 \<le> round_even (x / ulp x)" using round_even_of_int [of 0] by simp
  then show ?thesis using ulp_pos [of x] by (simp add: rnd_def)
qed

lemma pow_split: "(2::real) powi e = 2 ^ 52 * 2 powi (e - 52)"
proof -
  have "(2::real) powi e = 2 powi (52 + (e - 52))" by simp
  also have "\<dots> = 2 powi 52 * 2 powi (e - 52)" by (subst power_int_add) simp_all
  finally show ?thesis by simp
qed

lemma rnd_lower:
  assumes "0 < x" "- 1022 < expo x"
  shows "2 powi expo x \<le> rnd x"
proof -
  have "2 powi expo x \<le> x" using expo_lower [OF assms(2)] assms(1) by simp
  then have "2 ^ 52 * ulp x \<le> x" unfolding ulp_def using pow_split [of "expo x"] by simp
  then have "of_int (2 ^ 52) \<le> x / ulp x" using ulp_pos [of x] by (simp add: field_simps)
  then have "round_even (of_int (2 ^ 52)) \<le> round_even (x / ulp x)" by (rule round_even_mono)
  then have "2 ^ 52 \<le> round_even (x / ulp x)" by (simp only: round_even_of_int)
  then have "of_int (2 ^ 52) \<le> (of_int (round_even (x / ulp x)) :: real)"
    by (simp only: of_int_le_iff)
  then have "(2 ^ 52 :: real) \<le> of_int (round_even (x / ulp x))" by simp
  then have "2 ^ 52 * ulp x \<le> of_int (round_even (x / ulp x)) * ulp x"
    using ulp_pos [of x] by (intro mult_right_mono) simp_all
  then show ?thesis unfolding rnd_def ulp_def using pow_split [of "expo x"] by simp
qed

lemma rnd_upper:
  assumes "0 < x" "expo x < 1023"
  shows "rnd x \<le> 2 powi (expo x + 1)"
proof -
  have p: "(2::real) powi (expo x + 1) = 2 ^ 53 * ulp x"
    unfolding ulp_def using pow_split [of "expo x + 1"] pow_split [of "expo x"]
    by (simp add: power_int_add)
  have "x \<le> 2 powi (expo x + 1)" using expo_upper [OF assms(2)] assms(1) by simp
  then have "x / ulp x \<le> of_int (2 ^ 53)" unfolding p using ulp_pos [of x] by (simp add: field_simps)
  then have "round_even (x / ulp x) \<le> round_even (of_int (2 ^ 53))" by (rule round_even_mono)
  then have "round_even (x / ulp x) \<le> 2 ^ 53" by (simp only: round_even_of_int)
  then have "(of_int (round_even (x / ulp x)) :: real) \<le> of_int (2 ^ 53)"
    by (simp only: of_int_le_iff)
  then have "of_int (round_even (x / ulp x)) \<le> (2 ^ 53 :: real)" by simp
  then have "of_int (round_even (x / ulp x)) * ulp x \<le> 2 ^ 53 * ulp x"
    using ulp_pos [of x] by (intro mult_right_mono) simp_all
  then show ?thesis unfolding p rnd_def .
qed

lemma rnd_mono:
  assumes "0 \<le> x" "x \<le> y"
  shows "rnd x \<le> rnd y"
proof (cases "x = 0")
  case True
  then show ?thesis using rnd_nonneg [of y] assms by (simp add: rnd_0)
next
  case False
  then have x: "0 < x" and y: "0 < y" using assms by simp_all
  have le: "expo x \<le> expo y" using assms by (intro expo_mono) simp
  show ?thesis
  proof (cases "expo x = expo y")
    case True
    then have u: "ulp x = ulp y" by (simp add: ulp_def)
    have "x / ulp y \<le> y / ulp y" using assms(2) ulp_pos [of y] by (simp add: divide_right_mono)
    then have "round_even (x / ulp y) \<le> round_even (y / ulp y)" by (rule round_even_mono)
    then have "(of_int (round_even (x / ulp y)) :: real) \<le> of_int (round_even (y / ulp y))" by simp
    then show ?thesis unfolding rnd_def u using ulp_pos [of y] by (intro mult_right_mono) simp_all
  next
    case False
    then have lt: "expo x < expo y" using le by simp
    have "rnd x \<le> 2 powi (expo x + 1)"
      using x lt expo_range(2) [of y] by (intro rnd_upper) simp_all
    also have "\<dots> \<le> 2 powi expo y" using lt by (intro power_int_increasing) simp_all
    also have "\<dots> \<le> rnd y" using y lt expo_range(1) [of x] by (intro rnd_lower) simp_all
    finally show ?thesis .
  qed
qed

lemma rnd_idem:
  assumes "0 \<le> x"
  shows "rnd (rnd x) = rnd x"
proof (cases "rnd x = 0")
  case True
  then show ?thesis by (simp add: rnd_0)
next
  case False
  define y where "y = rnd x"
  define e where "e = expo x"
  define n where "n = round_even (x / ulp x)"
  have y: "y = of_int n * 2 powi (e - 52)" by (simp add: y_def rnd_def n_def ulp_def e_def)
  have ypos: "0 < y" using False rnd_nonneg [OF assms] by (simp add: y_def)
  have xpos: "0 < x" using False assms by (cases "x = 0") (simp_all add: rnd_0)
  have lo: "- 1022 < e \<Longrightarrow> 2 powi e \<le> y"
    unfolding y_def e_def using xpos by (intro rnd_lower)
  have hi: "e < 1023 \<Longrightarrow> y \<le> 2 powi (e + 1)"
    unfolding y_def e_def using xpos by (intro rnd_upper)
  have "\<exists>k. y / ulp y = of_int k"
  proof (cases "e < 1023 \<and> y = 2 powi (e + 1)")
    case True
    have "expo y = e + 1"
    proof (rule expo_eqI)
      show "- 1022 \<le> e + 1" using expo_range(1) [of x] by (simp add: e_def)
      show "e + 1 \<le> 1023" using True by simp
      show "2 powi (e + 1) \<le> \<bar>y\<bar>" using True by simp
      have "(2::real) powi (e + 1) < 2 powi (e + 1 + 1)"
        by (intro power_int_strict_increasing) simp_all
      then show "\<bar>y\<bar> < 2 powi (e + 1 + 1)" using True by simp
    qed
    then have "ulp y = 2 powi (e + 1 - 52)" by (simp add: ulp_def)
    then have "y / ulp y = of_int (2 ^ 52)"
      using True pow_split [of "e + 1"] by simp
    then show ?thesis by blast
  next
    case False
    have "expo y = e"
    proof (rule expo_eqI)
      show "- 1022 \<le> e" "e \<le> 1023" using expo_range [of x] by (simp_all add: e_def)
      show "2 powi e \<le> \<bar>y\<bar>" if "- 1022 < e" using lo [OF that] by simp
      show "\<bar>y\<bar> < 2 powi (e + 1)" if "e < 1023" using hi [OF that] False that ypos by simp
    qed
    then have "ulp y = 2 powi (e - 52)" by (simp add: ulp_def)
    then have "y / ulp y = of_int n" using y by simp
    then show ?thesis by blast
  qed
  then obtain k where "y / ulp y = of_int k" by blast
  then have "rnd y = y" by (rule rnd_fixed)
  then show ?thesis by (simp add: y_def)
qed

lemma rnd_1: "rnd 1 = 1"
proof -
  have e: "expo 1 = 0" by (rule expo_eqI) simp_all
  show ?thesis by (simp add: rnd_eval [OF e] round_even_def)
qed

lemma rnd_unit:
  assumes "0 \<le> x" "x \<le> 1"
  shows "0 \<le> rnd x" "rnd x \<le> 1"
  using rnd_nonneg [OF assms(1)] rnd_mono [OF assms] by (simp_all add: rnd_1)

subsection \<open>Rounding at particular values, and operations that cannot overflow\<close>

lemma rnd_2: "rnd 2 = 2"
proof -
  have e: "expo 2 = 1" by (rule expo_eqI) simp_all
  show ?thesis by (simp add: rnd_eval [OF e] round_even_def)
qed

lemma rnd_100: "rnd 100 = 100"
proof -
  have e: "expo 100 = 6" by (rule expo_eqI) simp_all
  show ?thesis by (simp add: rnd_eval [OF e] round_even_def)
qed

lemma rnd_half: "rnd (1 / 2) = 1 / 2"
proof -
  have e: "expo (1 / 2) = - 1" by (rule expo_eqI) simp_all
  show ?thesis by (simp add: rnd_eval [OF e] round_even_def)
qed

lemma js_of_real_finite: "\<bar>rnd x\<bar> < 2 ^ 1024 \<Longrightarrow> js_of_real x = Fin (rnd x)"
  by (simp add: js_of_real_def)

lemma js_of_real_0: "js_of_real 0 = Fin 0"
  by (simp add: js_of_real_def rnd_0)

lemma js_of_real_unit:
  assumes "0 \<le> x" "x \<le> 1"
  shows "js_of_real x = Fin (rnd x)"
proof -
  have "\<bar>rnd x\<bar> \<le> 1" using rnd_unit [OF assms] by simp
  also have "(1::real) < 2 ^ 1024" by simp
  finally show ?thesis by (rule js_of_real_finite)
qed

lemma js_of_real_below:
  assumes "0 \<le> x" "x \<le> y" "js_of_real y = Fin b"
  shows "js_of_real x = Fin (rnd x)" and "0 \<le> rnd x" and "rnd x \<le> b"
proof -
  have fin: "\<bar>rnd y\<bar> < 2 ^ 1024" and b: "b = rnd y"
    using assms(3) by (auto simp: js_of_real_def split: if_splits)
  have le: "rnd x \<le> rnd y" using assms(1,2) by (rule rnd_mono)
  show nn: "0 \<le> rnd x" using assms(1) by (rule rnd_nonneg)
  have "\<bar>rnd x\<bar> < 2 ^ 1024" using nn le fin by linarith
  then show "js_of_real x = Fin (rnd x)" by (rule js_of_real_finite)
  show "rnd x \<le> b" using le b by simp
qed



subsection \<open>Window framer\<close>

lemma slice_window:
  assumes "0 \<le> i" "0 < w" "i + w \<le> int (length xs)"
  shows "slice xs i (i + w) = take (nat w) (drop (nat i) xs)"
  using assms by (simp add: slice_def Let_def min_def)

lemma createWindows_loop_map:
  "0 \<le> i \<Longrightarrow> 0 < w \<Longrightarrow>
   createWindows_loop data w i =
     map (\<lambda>j. take (nat w) (drop j data)) [nat i ..< Suc (length data) - nat w]"
proof (induction data w i rule: createWindows_loop.induct)
  case (1 data w i)
  show ?case
  proof (cases "i \<le> int (length data) - w")
    case True
    have lt: "nat i < Suc (length data) - nat w" using True 1(2,3) by linarith
    have "createWindows_loop data w i = slice data i (i + w) # createWindows_loop data w (i + 1)"
      using True by (simp add: createWindows_loop.simps [of data w i])
    also have "slice data i (i + w) = take (nat w) (drop (nat i) data)"
      using True 1(2,3) by (intro slice_window) auto
    also have "createWindows_loop data w (i + 1) =
        map (\<lambda>j. take (nat w) (drop j data)) [nat (i + 1) ..< Suc (length data) - nat w]"
      using 1 True by simp
    also have "nat (i + 1) = Suc (nat i)" using 1(2) by simp
    finally show ?thesis using lt by (simp add: upt_conv_Cons)
  next
    case False
    then have "\<not> nat i < Suc (length data) - nat w" using 1(2,3) by linarith
    then show ?thesis using False by (simp add: createWindows_loop.simps [of data w i])
  qed
qed

lemma createWindows_map:
  "0 < w \<Longrightarrow> createWindows data w = map (\<lambda>j. take (nat w) (drop j data)) [0 ..< Suc (length data) - nat w]"
  using createWindows_loop_map [of 0 w data] by (simp add: createWindows_def)

text \<open>
  Claim C7. For a positive window size \<open>w\<close>, \<open>createWindows\<close> returns exactly
  \<open>max 0 (length data - w + 1)\<close> windows (none when the series is shorter than \<open>w\<close>), every
  window has length \<open>w\<close>, and each window is the previous one without its first element,
  followed by the next value of the series, so that neighbours share \<open>w - 1\<close> values.
\<close>

theorem createWindows_frames:
  assumes "0 < w"
  shows "length (createWindows data w) = nat (max 0 (int (length data) - w + 1))
       \<and> (int (length data) < w \<longrightarrow> createWindows data w = [])
       \<and> (\<forall>win \<in> set (createWindows data w). int (length win) = w)
       \<and> (\<forall>i. Suc i < length (createWindows data w) \<longrightarrow>
             createWindows data w ! Suc i = tl (createWindows data w ! i) @ [data ! (i + nat w)]
           \<and> butlast (createWindows data w ! Suc i) = tl (createWindows data w ! i))"
proof -
  let ?n = "Suc (length data) - nat w"
  have m: "createWindows data w = map (\<lambda>j. take (nat w) (drop j data)) [0 ..< ?n]"
    using assms by (rule createWindows_map)
  have len: "length (createWindows data w) = ?n" by (simp add: m)
  have c1: "length (createWindows data w) = nat (max 0 (int (length data) - w + 1))"
    unfolding len using assms by linarith
  have c2: "int (length data) < w \<longrightarrow> createWindows data w = []"
    using m assms by auto
  have c3: "\<forall>win \<in> set (createWindows data w). int (length win) = w"
    unfolding m using assms by auto
  have c4: "createWindows data w ! Suc i = tl (createWindows data w ! i) @ [data ! (i + nat w)]"
    if "Suc i < length (createWindows data w)" for i
  proof -
    from that len have i: "Suc i < ?n" by simp
    then have b: "i + nat w < length data" by linarith
    have w: "nat w = Suc (nat w - 1)" using assms by simp
    have "take (nat w) (drop (Suc i) data) = take (nat w - 1) (drop (Suc i) data) @ [data ! (i + nat w)]"
    proof -
      have "take (Suc (nat w - 1)) (drop (Suc i) data)
          = take (nat w - 1) (drop (Suc i) data) @ [drop (Suc i) data ! (nat w - 1)]"
      proof (intro take_Suc_conv_app_nth)
        have "length (drop (Suc i) data) = length data - Suc i" by simp
        then show "nat w - 1 < length (drop (Suc i) data)" using b w by linarith
      qed
      moreover have "drop (Suc i) data ! (nat w - 1) = data ! (i + nat w)"
        using b assms by (simp add: nat_diff_distrib')
      ultimately show ?thesis using w by simp
    qed
    moreover have "tl (take (nat w) (drop i data)) = take (nat w - 1) (drop (Suc i) data)"
      by (simp add: tl_take drop_Suc tl_drop)
    ultimately show ?thesis using i by (simp add: m)
  qed
  have c5: "butlast (createWindows data w ! Suc i) = tl (createWindows data w ! i)"
    if "Suc i < length (createWindows data w)" for i
    using c4 [OF that] by simp
  show ?thesis using c1 c2 c3 c4 c5 by blast
qed

theorem createWindows_frames_witness:
  "length (createWindows [1, 2, 3, 4, 5] 3) = 3
   \<and> createWindows [1, 2, 3, 4, 5] 3 = [[1, 2, 3], [2, 3, 4], [3, 4, 5]]"
  using createWindows_frames [of 3 "[1, 2, 3, 4, 5]"]
  by (simp add: createWindows_def createWindows_loop.simps slice_def)

subsection \<open>Normalisation\<close>

lemma fold_js_min_Fin: "fold (\<lambda>v m. js_min m v) (map Fin xs) (Fin a) = Fin (fold min xs a)"
  by (induction xs arbitrary: a) (simp_all add: min.commute)

lemma fold_js_max_Fin: "fold (\<lambda>v m. js_max m v) (map Fin xs) (Fin a) = Fin (fold max xs a)"
  by (induction xs arbitrary: a) (simp_all add: max.commute)

lemma Math_min_Fin:
  assumes "xs \<noteq> []"
  shows "Math_min (map Fin xs) = Fin (Min (set xs))"
proof -
  obtain a list where xs: "xs = a # list" using assms by (cases xs) auto
  have "Math_min (map Fin xs) = Fin (fold min list a)"
    by (simp add: xs Math_min_def fold_js_min_Fin)
  also have "fold min list a = Min (set (a # list))" by (rule Min.set_eq_fold [symmetric])
  finally show ?thesis by (simp only: xs)
qed

lemma Math_max_Fin:
  assumes "xs \<noteq> []"
  shows "Math_max (map Fin xs) = Fin (Max (set xs))"
proof -
  obtain a list where xs: "xs = a # list" using assms by (cases xs) auto
  have "Math_max (map Fin xs) = Fin (fold max list a)"
    by (simp add: xs Math_max_def fold_js_max_Fin)
  also have "fold max list a = Max (set (a # list))" by (rule Max.set_eq_fold [symmetric])
  finally show ?thesis by (simp only: xs)
qed

lemma concat_map_map: "concat (map (map f) ws) = map f (concat ws)"
  by (induction ws) simp_all

lemma map_map_cong:
  assumes "\<And>x. x \<in> set (concat ws) \<Longrightarrow> f x = g x"
  shows "map (map f) ws = map (map g) ws"
  using assms by (induction ws) auto

text \<open>
  On finite values whose range does not overflow, every value \<open>x\<close> becomes the double of
  \<open>(x - min) / range\<close>, computed with one rounding for the difference and one for the quotient.
\<close>

lemma normalized_finite:
  assumes ne: "concat rs \<noteq> []"
    and rng: "js_of_real (Max (set (concat rs)) - Min (set (concat rs))) = Fin R"
  shows "normalized (normalizeWindows (map (map Fin) rs))
           = map (map (\<lambda>x. Fin (rnd (rnd (x - Min (set (concat rs))) / (if R = 0 then 1 else R))))) rs"
    and "\<forall>x \<in> set (concat rs).
           0 \<le> rnd (rnd (x - Min (set (concat rs))) / (if R = 0 then 1 else R))
         \<and> rnd (rnd (x - Min (set (concat rs))) / (if R = 0 then 1 else R)) \<le> 1"
proof -
  define xs where "xs = concat rs"
  define mn where "mn = Min (set xs)"
  define mx where "mx = Max (set xs)"
  define R' where "R' = (if R = 0 then 1 else R)"
  have fin: "finite (set xs)" "set xs \<noteq> {}" using ne by (simp_all add: xs_def)
  have bnd: "mn \<le> x \<and> x \<le> mx" if "x \<in> set xs" for x
    unfolding mn_def mx_def using that fin by simp
  have R: "js_of_real (mx - mn) = Fin R" using rng by (simp add: mx_def mn_def xs_def)
  have Rnn: "0 \<le> R"
  proof -
    have "mn \<in> set xs" unfolding mn_def by (rule Min_in [OF fin])
    then have "0 \<le> mx - mn" using bnd by force
    then have "0 \<le> rnd (mx - mn)" by (rule rnd_nonneg)
    moreover have "R = rnd (mx - mn)" using R by (auto simp: js_of_real_def split: if_splits)
    ultimately show ?thesis by simp
  qed
  have R'pos: "0 < R'" using Rnn by (simp add: R'_def)
  have flat: "concat (map (map Fin) rs) = map Fin xs" by (simp add: concat_map_map xs_def)
  have xne: "xs \<noteq> []" using ne by (simp add: xs_def)
  have range: "js_or (js_sub (Math_max (map Fin xs)) (Math_min (map Fin xs))) (Fin 1) = Fin R'"
    by (simp add: Math_min_Fin [OF xne] Math_max_Fin [OF xne] mn_def [symmetric] mx_def [symmetric]
        R R'_def)
  have step: "js_div (js_sub (Fin x) (Fin mn)) (Fin R') = Fin (rnd (rnd (x - mn) / R'))
              \<and> 0 \<le> rnd (rnd (x - mn) / R') \<and> rnd (rnd (x - mn) / R') \<le> 1"
    if "x \<in> set xs" for x
  proof -
    have d: "0 \<le> x - mn" "x - mn \<le> mx - mn" using bnd [OF that] by simp_all
    note a = js_of_real_below [OF d R]
    have q: "0 \<le> rnd (x - mn) / R'" "rnd (x - mn) / R' \<le> 1"
    proof -
      show "0 \<le> rnd (x - mn) / R'" using a(2) R'pos by simp
      show "rnd (x - mn) / R' \<le> 1"
      proof (cases "R = 0")
        case True
        then have "rnd (x - mn) = 0" using a(2,3) by simp
        then show ?thesis by simp
      next
        case False
        then show ?thesis using a(3) R'pos by (simp add: R'_def)
      qed
    qed
    have "js_div (js_sub (Fin x) (Fin mn)) (Fin R') = js_of_real (rnd (x - mn) / R')"
      using a(1) R'pos by simp
    then show ?thesis using js_of_real_unit [OF q] rnd_unit [OF q] by simp
  qed
  have "normalized (normalizeWindows (map (map Fin) rs))
          = map (map (\<lambda>v. js_div (js_sub v (Fin mn)) (Fin R'))) (map (map Fin) rs)"
    unfolding normalizeWindows_def Let_def flat range
    by (simp add: Math_min_Fin [OF xne] mn_def)
  also have "\<dots> = map (map (\<lambda>x. js_div (js_sub (Fin x) (Fin mn)) (Fin R'))) rs"
    by (simp add: comp_def)
  also have "\<dots> = map (map (\<lambda>x. Fin (rnd (rnd (x - mn) / R')))) rs"
    by (rule map_map_cong) (use step in \<open>simp add: xs_def\<close>)
  finally show "normalized (normalizeWindows (map (map Fin) rs))
           = map (map (\<lambda>x. Fin (rnd (rnd (x - Min (set (concat rs))) / (if R = 0 then 1 else R))))) rs"
    by (simp add: mn_def xs_def R'_def)
  show "\<forall>x \<in> set (concat rs).
           0 \<le> rnd (rnd (x - Min (set (concat rs))) / (if R = 0 then 1 else R))
         \<and> rnd (rnd (x - Min (set (concat rs))) / (if R = 0 then 1 else R)) \<le> 1"
    using step by (simp add: mn_def xs_def R'_def)
qed

lemma map_map_empty: "concat ws = [] \<Longrightarrow> map (map f) ws = ws"
  by (induction ws) simp_all

lemma finite_values:
  assumes "\<forall>w \<in> set ws. \<forall>v \<in> set w. isFinite v"
  shows "\<exists>rs. ws = map (map Fin) rs"
proof -
  define val where "val = (\<lambda>v. case v of Fin x \<Rightarrow> x | _ \<Rightarrow> (0::real))"
  have "Fin (val v) = v" if "isFinite v" for v
    using that by (cases v) (simp_all add: val_def)
  then have "map (map (\<lambda>v. Fin (val v))) ws = ws"
    using assms by (intro map_idI) auto
  then have "ws = map (map Fin) (map (map val) ws)" by (simp add: comp_def)
  then show ?thesis by blast
qed

lemma rnd_10: "rnd 10 = 10"
proof -
  have e: "expo 10 = 3" by (rule expo_eqI) simp_all
  show ?thesis by (simp add: rnd_eval [OF e] round_even_def)
qed

lemma rnd_20: "rnd 20 = 20"
proof -
  have e: "expo 20 = 4" by (rule expo_eqI) simp_all
  show ?thesis by (simp add: rnd_eval [OF e] round_even_def)
qed

lemma js_of_real_overflow: "js_of_real (2 ^ 1024) = PosInf"
proof -
  have e: "expo (2 ^ 1024) = 1023" by (rule expo_eqI) simp_all
  have u: "ulp (2 ^ 1024) = 2 ^ 971" by (simp only: ulp_def e) simp
  have "(2 ^ 1024 :: real) / ulp (2 ^ 1024) = of_int (2 ^ 53)" unfolding u by simp
  then have "rnd (2 ^ 1024) = 2 ^ 1024" by (rule rnd_fixed)
  then show ?thesis by (simp add: js_of_real_def)
qed

text \<open>
  Claim C6, as amended. When every value of the batch is finite and the range \<open>max - min\<close>
  does not overflow, every value of the normalised windows is a number in \<open>[0, 1]\<close>, and
  normalising the normalised windows again returns the same windows.
\<close>

theorem normalizeWindows_unit_idempotent:
  assumes fin: "\<forall>w \<in> set ws. \<forall>v \<in> set w. isFinite v"
    and rng: "concat ws \<noteq> [] \<longrightarrow> isFinite (js_sub (Math_max (concat ws)) (Math_min (concat ws)))"
  shows "(\<forall>w \<in> set (normalized (normalizeWindows ws)). \<forall>v \<in> set w. \<exists>x. v = Fin x \<and> 0 \<le> x \<and> x \<le> 1)
       \<and> normalized (normalizeWindows (normalized (normalizeWindows ws)))
           = normalized (normalizeWindows ws)"
proof (cases "concat ws = []")
  case True
  then have n: "normalized (normalizeWindows ws) = ws"
    by (simp add: normalizeWindows_def Let_def map_map_empty)
  have "\<forall>w \<in> set ws. w = []" using True by simp
  then show ?thesis unfolding n using n by auto
next
  case False
  obtain rs where ws: "ws = map (map Fin) rs" using finite_values [OF fin] by blast
  define xs where "xs = concat rs"
  define mn where "mn = Min (set xs)"
  define mx where "mx = Max (set xs)"
  have xne: "xs \<noteq> []" using False by (simp add: ws xs_def concat_map_map)
  have fs: "finite (set xs)" "set xs \<noteq> {}" using xne by simp_all
  have mn_in: "mn \<in> set xs" unfolding mn_def by (rule Min_in [OF fs])
  have mx_in: "mx \<in> set xs" unfolding mx_def by (rule Max_in [OF fs])
  have bnd: "mn \<le> x \<and> x \<le> mx" if "x \<in> set xs" for x
    unfolding mn_def mx_def using that fs by simp
  have "isFinite (js_of_real (mx - mn))"
    using rng False
    by (simp add: ws concat_map_map xs_def [symmetric] Math_min_Fin [OF xne] Math_max_Fin [OF xne]
        mn_def mx_def)
  then obtain R where R: "js_of_real (mx - mn) = Fin R" by (cases "js_of_real (mx - mn)") simp_all
  have Rr: "R = rnd (mx - mn)" using R by (auto simp: js_of_real_def split: if_splits)
  define R' where "R' = (if R = 0 then 1 else R)"
  define g where "g = (\<lambda>x. rnd (rnd (x - mn) / R'))"
  define rs' where "rs' = map (map g) rs"
  have ne: "concat rs \<noteq> []" using xne by (simp add: xs_def)
  have R0: "js_of_real (Max (set (concat rs)) - Min (set (concat rs))) = Fin R"
    using R by (simp add: mx_def mn_def xs_def)
  have n: "normalized (normalizeWindows ws) = map (map Fin) rs'"
    unfolding ws normalized_finite(1) [OF ne R0]
    by (simp add: rs'_def g_def R'_def mn_def xs_def comp_def)
  have unit: "0 \<le> g x \<and> g x \<le> 1" if "x \<in> set xs" for x
    using normalized_finite(2) [OF ne R0] that
    unfolding g_def R'_def mn_def xs_def by blast
  have flat': "concat rs' = map g xs" by (simp add: rs'_def xs_def concat_map_map)
  have part1: "\<forall>w \<in> set (normalized (normalizeWindows ws)). \<forall>v \<in> set w. \<exists>x. v = Fin x \<and> 0 \<le> x \<and> x \<le> 1"
  proof (intro ballI)
    fix w v assume "w \<in> set (normalized (normalizeWindows ws))" "v \<in> set w"
    then have "v \<in> set (concat (map (map Fin) rs'))" unfolding n by auto
    then have "v \<in> Fin ` g ` set xs" by (simp add: concat_map_map flat' image_image)
    then obtain x where "x \<in> set xs" "v = Fin (g x)" by auto
    then show "\<exists>x. v = Fin x \<and> 0 \<le> x \<and> x \<le> 1" using unit by blast
  qed
  have R'pos: "0 < R'"
  proof -
    have "0 \<le> mx - mn" using bnd [OF mn_in] by simp
    then have "0 \<le> R" unfolding Rr by (rule rnd_nonneg)
    then show ?thesis by (simp add: R'_def)
  qed
  have g_mn: "g mn = 0" by (simp add: g_def rnd_0)
  have g_mx: "g mx = (if R = 0 then 0 else 1)"
    by (simp add: g_def Rr [symmetric] R'_def rnd_0 rnd_1)
  have g_zero: "g x = 0" if "R = 0" "x \<in> set xs" for x
  proof -
    have "0 \<le> x - mn" "x - mn \<le> mx - mn" using bnd [OF that(2)] by simp_all
    then have "0 \<le> rnd (x - mn)" "rnd (x - mn) \<le> rnd (mx - mn)"
      using rnd_nonneg rnd_mono by blast+
    then have "rnd (x - mn) = 0" using that(1) Rr by simp
    then show ?thesis by (simp add: g_def rnd_0)
  qed
  have fin': "finite (set (concat rs'))" by simp
  have ne': "concat rs' \<noteq> []" using xne by (simp add: flat')
  have lo: "Min (set (concat rs')) = 0"
  proof (rule Min_eqI [OF fin'])
    show "0 \<le> y" if "y \<in> set (concat rs')" for y using that unit by (auto simp: flat')
    have "g mn \<in> g ` set xs" using mn_in by (rule imageI)
    then show "0 \<in> set (concat rs')" by (simp add: flat' g_mn)
  qed
  have hi: "Max (set (concat rs')) = (if R = 0 then 0 else 1)"
  proof (rule Max_eqI [OF fin'])
    show "y \<le> (if R = 0 then 0 else 1)" if "y \<in> set (concat rs')" for y
      using that unit g_zero by (auto simp: flat')
    have "g mx \<in> g ` set xs" using mx_in by (rule imageI)
    then show "(if R = 0 then 0 else 1) \<in> set (concat rs')" by (simp add: flat' g_mx)
  qed
  have R2: "js_of_real (Max (set (concat rs')) - Min (set (concat rs')))
              = Fin (if R = 0 then 0 else 1)"
    unfolding lo hi by (simp add: js_of_real_0 js_of_real_unit rnd_0 rnd_1)
  have again: "rnd (rnd (g x - 0) / 1) = g x" if "x \<in> set xs" for x
  proof -
    have "0 \<le> x - mn" using bnd [OF that] by simp
    then have "0 \<le> rnd (x - mn)" by (rule rnd_nonneg)
    then have "0 \<le> rnd (x - mn) / R'" using R'pos by simp
    then have "rnd (g x) = g x" unfolding g_def by (rule rnd_idem)
    then show ?thesis by simp
  qed
  have "normalized (normalizeWindows (map (map Fin) rs'))
          = map (map (\<lambda>q. Fin (rnd (rnd (q - 0) / 1)))) rs'"
    unfolding normalized_finite(1) [OF ne' R2] lo by simp
  also have "\<dots> = map (map (\<lambda>x. Fin (rnd (rnd (g x - 0) / 1)))) rs"
    by (simp add: rs'_def comp_def)
  also have "\<dots> = map (map (\<lambda>x. Fin (g x))) rs"
  proof (rule map_map_cong)
    fix x assume "x \<in> set (concat rs)"
    then have "x \<in> set xs" by (simp add: xs_def)
    then show "Fin (rnd (rnd (g x - 0) / 1)) = Fin (g x)" by (simp only: again)
  qed
  also have "\<dots> = map (map Fin) rs'" by (simp add: rs'_def comp_def)
  finally have part2: "normalized (normalizeWindows (normalized (normalizeWindows ws)))
      = normalized (normalizeWindows ws)"
    unfolding n .
  show ?thesis using part1 part2 by (rule conjI)
qed

theorem normalizeWindows_unit_idempotent_witness:
  "normalized (normalizeWindows [[Fin 40, Fin 50], [Fin 50, Fin 60]])
     = [[Fin 0, Fin (1/2)], [Fin (1/2), Fin 1]]
   \<and> normalized (normalizeWindows [[Fin 0, Fin (1/2)], [Fin (1/2), Fin 1]])
     = [[Fin 0, Fin (1/2)], [Fin (1/2), Fin 1]]"
proof -
  let ?ws = "[[Fin 40, Fin 50], [Fin 50, Fin 60]]"
  have n: "normalized (normalizeWindows ?ws) = [[Fin 0, Fin (1/2)], [Fin (1/2), Fin 1]]"
    by (simp add: normalizeWindows_def Math_min_def Math_max_def Let_def js_of_real_def
        rnd_0 rnd_10 rnd_20 rnd_half rnd_1)
  have f: "\<forall>w \<in> set ?ws. \<forall>v \<in> set w. isFinite v" by simp
  have r: "concat ?ws \<noteq> [] \<longrightarrow> isFinite (js_sub (Math_max (concat ?ws)) (Math_min (concat ?ws)))"
    by (simp add: Math_min_def Math_max_def js_of_real_def rnd_20)
  show ?thesis using normalizeWindows_unit_idempotent [OF f r] unfolding n by simp
qed

text \<open>
  Without the bound on the range the claim fails: for the batch \<open>[[-2^1023, 2^1023]]\<close> the
  difference \<open>max - min\<close> overflows to \<open>Infinity\<close>, and the second value is normalised
  to \<open>Infinity / Infinity = NaN\<close>.
\<close>

theorem normalizeWindows_overflow_counterexample:
  "normalized (normalizeWindows [[Fin (- (2 ^ 1023)), Fin (2 ^ 1023)]]) = [[Fin 0, NaN]]"
proof -
  define B :: real where "B = 2 ^ 1023"
  have "2 * B = 2 ^ 1024" by (simp add: B_def)
  then have s: "js_of_real (2 * B) = PosInf" by (simp only: js_of_real_overflow)
  have m: "min (- B) B = - B" "max (- B) B = B" by (simp_all add: B_def)
  have "normalized (normalizeWindows [[Fin (- B), Fin B]]) = [[Fin 0, NaN]]"
    by (simp add: normalizeWindows_def Math_min_def Math_max_def Let_def m s js_of_real_0)
  then show ?thesis unfolding B_def .
qed

lemma length_normalized: "length (normalized (normalizeWindows ws)) = length ws"
  by (simp add: normalizeWindows_def Let_def)

subsection \<open>Signal generator\<close>















subsection \<open>Series importer\<close>

lemma js_or_50_not_NaN: "\<not> isNaN (js_or v (Fin 50))"
  by (cases v) auto

lemma parseLine_not_NaN: "\<not> isNaN (moisture (parseLine pf pint hasMoisture il))"
  by (cases il) (simp add: parseLine_def Let_def js_or_50_not_NaN)

lemma parseLine_zero:
  "pf (part_at (map trim (split line CHR '','')) (if hasMoisture then 1 else 0)) = Fin 0
   \<Longrightarrow> moisture (parseLine pf pint hasMoisture (i, line)) = Fin 50"
  by (cases hasMoisture) (simp_all add: parseLine_def Let_def)

lemma parseLine_unparseable:
  "pf (part_at (map trim (split line CHR '','')) (if hasMoisture then 1 else 0)) = NaN
   \<Longrightarrow> moisture (parseLine pf pint hasMoisture (i, line)) = Fin 50"
  by (cases hasMoisture) (simp_all add: parseLine_def Let_def)

lemma split_nonempty: "split s sep \<noteq> []"
  by (induction s) (auto split: list.splits)

text \<open>
  Claim C10. \<open>parseCSV\<close> returns exactly one sample for every line after the header: the
  not-a-number filter drops nothing, because \<open>parseFloat(x) || 50\<close> is never \<open>NaN\<close>. Sample
  \<open>i\<close> comes from line \<open>i\<close> after the header, and its moisture is 50 both when its moisture
  field does not parse and when it parses to exactly 0.
\<close>

theorem parseCSV_keeps_every_row:
  "length (parseCSV pf pint csvText) = length (tl (split (trim csvText) CHR 0x0A))
   \<and> parseCSV pf pint csvText
       = map (parseLine pf pint (includes_str (toLowerCase (hd (split (trim csvText) CHR 0x0A))) ''moisture''))
           (enumerate 0 (tl (split (trim csvText) CHR 0x0A)))
   \<and> (\<forall>p \<in> set (parseCSV pf pint csvText). \<not> isNaN (moisture p))
   \<and> (\<forall>hasMoisture i line.
         pf (part_at (map trim (split line CHR '','')) (if hasMoisture then 1 else 0)) = Fin 0
         \<longrightarrow> moisture (parseLine pf pint hasMoisture (i, line)) = Fin 50)"
proof -
  obtain first rest where s: "split (trim csvText) CHR 0x0A = first # rest"
    using split_nonempty [of "trim csvText" "CHR 0x0A"] by (cases "split (trim csvText) CHR 0x0A") auto
  let ?rows = "map (parseLine pf pint (includes_str (toLowerCase first) ''moisture'')) (enumerate 0 rest)"
  have "\<forall>p \<in> set ?rows. \<not> isNaN (moisture p)"
    by (auto simp: parseLine_not_NaN)
  then have keep: "filter (\<lambda>p. \<not> isNaN (moisture p)) ?rows = ?rows"
    by (simp only: filter_True)
  have eq: "parseCSV pf pint csvText = ?rows"
    by (simp only: parseCSV_def s list.case Let_def keep)
  have c1: "length (parseCSV pf pint csvText) = length (tl (split (trim csvText) CHR 0x0A))"
    by (simp add: eq s)
  have c2: "parseCSV pf pint csvText
       = map (parseLine pf pint (includes_str (toLowerCase (hd (split (trim csvText) CHR 0x0A))) ''moisture''))
           (enumerate 0 (tl (split (trim csvText) CHR 0x0A)))"
    by (simp add: eq s)
  have c3: "\<forall>p \<in> set (parseCSV pf pint csvText). \<not> isNaN (moisture p)"
    unfolding eq by (auto simp: parseLine_not_NaN)
  have c4: "\<forall>hasMoisture i line.
         pf (part_at (map trim (split line CHR '','')) (if hasMoisture then 1 else 0)) = Fin 0
         \<longrightarrow> moisture (parseLine pf pint hasMoisture (i, line)) = Fin 50"
    using parseLine_zero by blast
  show ?thesis using c1 c2 c3 c4 by blast
qed

theorem parseCSV_keeps_every_row_witness:
  "length (parseCSV (\<lambda>s. if s = ''0'' then Fin 0 else if s = ''42'' then Fin 42 else NaN) (\<lambda>s. None)
      (''t,moisture'' @ [CHR 0x0A] @ ''1,0'' @ [CHR 0x0A] @ ''2, 42'' @ [CHR 0x0A] @ ''3,dry'')) = 3
   \<and> map moisture
       (parseCSV (\<lambda>s. if s = ''0'' then Fin 0 else if s = ''42'' then Fin 42 else NaN) (\<lambda>s. None)
         (''t,moisture'' @ [CHR 0x0A] @ ''1,0'' @ [CHR 0x0A] @ ''2, 42'' @ [CHR 0x0A] @ ''3,dry''))
       = [Fin 50, Fin 42, Fin 50]"
proof -
  let ?pf = "\<lambda>s. if s = ''0'' then Fin 0 else if s = ''42'' then Fin 42 else NaN"
  let ?pint = "\<lambda>s::string. None :: int option"
  let ?text = "''t,moisture'' @ [CHR 0x0A] @ ''1,0'' @ [CHR 0x0A] @ ''2, 42'' @ [CHR 0x0A] @ ''3,dry''"
  have lines: "split (trim ?text) CHR 0x0A = [''t,moisture'', ''1,0'', ''2, 42'', ''3,dry'']"
    by (simp add: trim_def strip.simps white_space_def)
  have hdr: "includes_str (toLowerCase ''t,moisture'') ''moisture''"
    by (simp add: toLowerCase_def)
  from parseCSV_keeps_every_row [of ?pf ?pint ?text]
  have rows: "parseCSV ?pf ?pint ?text
       = map (parseLine ?pf ?pint (includes_str (toLowerCase (hd (split (trim ?text) CHR 0x0A))) ''moisture''))
           (enumerate 0 (tl (split (trim ?text) CHR 0x0A)))"
    by blast
  have "parseCSV ?pf ?pint ?text
       = map (parseLine ?pf ?pint True) [(0, ''1,0''), (Suc 0, ''2, 42''), (Suc (Suc 0), ''3,dry'')]"
    unfolding rows lines using hdr by (simp add: enumerate_eq_zip upt_rec)
  then show ?thesis
    by (simp add: parseLine_def part_at_def trim_def strip.simps white_space_def)
qed

subsection \<open>Training\<close>

lemma fit_history:
  "fold (\<lambda>epoch. (\<lambda>(h, s). (h @ [g epoch], k epoch (g epoch) s))) [a ..< a + n] (h0, s0)
     = (h0 @ map g [a ..< a + n],
        fold (\<lambda>epoch. k epoch (g epoch)) [a ..< a + n] s0)"
proof (induction n arbitrary: a h0 s0)
  case 0
  show ?case by simp
next
  case (Suc n)
  have u: "[a ..< a + Suc n] = a # [Suc a ..< Suc a + n]"
    by (simp add: upt_rec)
  show ?case unfolding u using Suc [of "Suc a"] by simp
qed

lemma trainAutoencoder_run:
  assumes "tensor2d_ok tf ws" and "list_all (\<lambda>w. length w = 10) ws"
    and "fit_ok tf ws (case epochs config of None \<Rightarrow> 50 | Some e \<Rightarrow> e)
           (case batchSize config of None \<Rightarrow> 32 | Some b \<Rightarrow> b)"
  shows "trainAutoencoder tf ws config s =
     (let n = (case epochs config of None \<Rightarrow> 50 | Some e \<Rightarrow> e);
          b = (case batchSize config of None \<Rightarrow> 32 | Some b \<Rightarrow> b);
          lossOf = (\<lambda>epoch. case epoch_loss tf ws b epoch of None \<Rightarrow> Fin 0 | Some l \<Rightarrow> l)
      in Inr (map lossOf [0 ..< n],
              fold (\<lambda>epoch s. case onEpochEnd config of
                        None \<Rightarrow> s
                      | Some f \<Rightarrow> f (epoch + 1) (lossOf epoch)
                                   (Math_round (rnd (rnd (real (epoch + 1) / real n) * 100))) s)
                [0 ..< n] s))"
proof -
  define n where "n = (case epochs config of None \<Rightarrow> 50 | Some e \<Rightarrow> e)"
  define b where "b = (case batchSize config of None \<Rightarrow> 32 | Some b \<Rightarrow> b)"
  define g where "g = (\<lambda>epoch. case epoch_loss tf ws b epoch of None \<Rightarrow> Fin 0 | Some l \<Rightarrow> l)"
  define k where "k = (\<lambda>epoch loss s. case onEpochEnd config of
                        None \<Rightarrow> s
                      | Some f \<Rightarrow> f (epoch + 1) loss
                                   (Math_round (rnd (rnd (real (epoch + 1) / real n) * 100))) s)"
  have "trainAutoencoder tf ws config s
          = Inr (fold (\<lambda>epoch. (\<lambda>(h, s). (h @ [g epoch], k epoch (g epoch) s))) [0 ..< 0 + n] ([], s))"
    using assms unfolding trainAutoencoder_def fit_def Let_def n_def [symmetric] b_def [symmetric]
      g_def k_def
    by simp
  also have "\<dots> = Inr ([] @ map g [0 ..< 0 + n], fold (\<lambda>epoch. k epoch (g epoch)) [0 ..< 0 + n] s)"
    by (simp only: fit_history)
  finally have "trainAutoencoder tf ws config s
          = Inr (map g [0 ..< n], fold (\<lambda>epoch. k epoch (g epoch)) [0 ..< n] s)"
    by simp
  then show ?thesis
    unfolding Let_def g_def k_def n_def b_def .
qed

lemma fold_append_log: "fold (\<lambda>x acc. acc @ [r x]) xs acc = acc @ map r xs"
  by (induction xs arbitrary: acc) simp_all

lemma trainAutoencoder_logged:
  assumes "tensor2d_ok tf ws" and "list_all (\<lambda>w. length w = 10) ws"
    and "fit_ok tf ws (case epochs config of None \<Rightarrow> 50 | Some e \<Rightarrow> e)
           (case batchSize config of None \<Rightarrow> 32 | Some b \<Rightarrow> b)"
    and "onEpochEnd config = Some (\<lambda>epoch loss progress reports. reports @ [(epoch, loss, progress)])"
  shows "trainAutoencoder tf ws config [] =
     (let n = (case epochs config of None \<Rightarrow> 50 | Some e \<Rightarrow> e);
          b = (case batchSize config of None \<Rightarrow> 32 | Some b \<Rightarrow> b);
          lossOf = (\<lambda>epoch. case epoch_loss tf ws b epoch of None \<Rightarrow> Fin 0 | Some l \<Rightarrow> l)
      in Inr (map lossOf [0 ..< n],
              map (\<lambda>epoch. (epoch + 1, lossOf epoch,
                     Math_round (rnd (rnd (real (epoch + 1) / real n) * 100)))) [0 ..< n]))"
  unfolding trainAutoencoder_run [OF assms(1,2,3)] Let_def assms(4) option.case fold_append_log
  by simp

lemma progress_23_of_40: "Math_round (rnd (rnd (real (22 + 1) / real 40) * 100)) = 57"
proof -
  define y :: real where "y = 5179139571476070 / 2 ^ 53 * 100"
  have a: "real (22 + 1) / real 40 = 23 / 40" by simp
  have e: "expo (23 / 40) = - 1" by (rule expo_eqI) simp_all
  have q: "rnd (23 / 40) = 5179139571476070 / 2 ^ 53"
    by (simp add: rnd_eval [OF e] round_even_def)
  have e': "expo y = 5" by (rule expo_eqI) (simp_all add: y_def)
  have r: "rnd y = 8092405580431359 / 2 ^ 47"
    by (subst rnd_eval [OF e']) (simp add: y_def round_even_def)
  have "Math_round (8092405580431359 / 2 ^ 47) = 57"
    unfolding Math_round_def by (rule floor_unique) simp_all
  then show ?thesis unfolding a q y_def [symmetric] r .
qed

text \<open>
  Claim C9, as amended. When \<open>trainAutoencoder\<close> is called without an epoch count, on
  windows of width 10 that the library accepts, it runs for its default of 50 epochs: the
  loss history has 50 entries, and a caller's callback is invoked 50 times, with the epoch
  numbers 1 to 50 in order, the losses of the history and the progress of each epoch. (The
  page's \<open>handleTrain\<close> always passes 60.)
\<close>

theorem trainAutoencoder_default_epochs:
  assumes "tensor2d_ok tf ws" and "list_all (\<lambda>w. length w = 10) ws"
    and "fit_ok tf ws 50 (case batchSize config of None \<Rightarrow> 32 | Some b \<Rightarrow> b)"
    and "epochs config = None"
    and "onEpochEnd config = Some (\<lambda>epoch loss progress reports. reports @ [(epoch, loss, progress)])"
  shows "\<exists>lossHistory reports.
           trainAutoencoder tf ws config [] = Inr (lossHistory, reports)
         \<and> length lossHistory = 50
         \<and> length reports = 50
         \<and> map fst reports = [1 ..< 51]
         \<and> map (fst \<circ> snd) reports = lossHistory
         \<and> map (snd \<circ> snd) reports
             = map (\<lambda>epoch. Math_round (rnd (rnd (real (epoch + 1) / real (50::nat)) * 100))) [0 ..< 50]"
proof -
  define b where "b = (case batchSize config of None \<Rightarrow> 32 | Some b \<Rightarrow> b)"
  define g where "g = (\<lambda>epoch. case epoch_loss tf ws b epoch of None \<Rightarrow> Fin 0 | Some l \<Rightarrow> l)"
  define p where "p = (\<lambda>epoch. Math_round (rnd (rnd (real (epoch + 1) / real (50::nat)) * 100)))"
  define r where "r = (\<lambda>epoch. (epoch + 1, g epoch, p epoch))"
  have ok: "fit_ok tf ws (case epochs config of None \<Rightarrow> 50 | Some e \<Rightarrow> e)
             (case batchSize config of None \<Rightarrow> 32 | Some b \<Rightarrow> b)"
    using assms(3) by (simp add: assms(4))
  have run: "trainAutoencoder tf ws config [] = Inr (map g [0 ..< 50], map r [0 ..< 50])"
    unfolding trainAutoencoder_logged [OF assms(1,2) ok assms(5)] Let_def assms(4) option.case
      b_def [symmetric] g_def r_def p_def ..
  have "map fst (map r [0 ..< 50]) = map Suc [0 ..< 50]" by (simp add: r_def)
  also have "\<dots> = [1 ..< 51]" by (simp only: map_Suc_upt) simp
  finally have e: "map fst (map r [0 ..< 50]) = [1 ..< 51]" .
  have l: "map (fst \<circ> snd) (map r [0 ..< 50]) = map g [0 ..< 50]" by (simp add: r_def)
  have q: "map (snd \<circ> snd) (map r [0 ..< 50]) = map p [0 ..< 50]" by (simp add: r_def)
  have "trainAutoencoder tf ws config [] = Inr (map g [0 ..< 50], map r [0 ..< 50])
      \<and> length (map g [0 ..< 50]) = 50
      \<and> length (map r [0 ..< 50]) = 50
      \<and> map fst (map r [0 ..< 50]) = [1 ..< 51]
      \<and> map (fst \<circ> snd) (map r [0 ..< 50]) = map g [0 ..< 50]
      \<and> map (snd \<circ> snd) (map r [0 ..< 50]) = map p [0 ..< 50]"
    using run e l q by simp
  then show ?thesis unfolding p_def by blast
qed

theorem trainAutoencoder_default_epochs_witness:
  "\<exists>lossHistory reports.
     trainAutoencoder
       \<lparr> tensor2d_ok = (\<lambda>ws. ws \<noteq> []), fit_ok = (\<lambda>ws epochs batchSize. 0 < epochs \<and> 0 < batchSize),
         epoch_loss = (\<lambda>ws b epoch. Some (Fin (1/2))) \<rparr>
       (replicate 10 (replicate 10 (Fin (1/2))))
       \<lparr> epochs = None, batchSize = None, learningRate = None,
         onEpochEnd = Some (\<lambda>epoch loss progress reports. reports @ [(epoch, loss, progress)]) \<rparr> []
       = Inr (lossHistory, reports)
     \<and> length lossHistory = 50 \<and> length reports = 50 \<and> map fst reports = [1 ..< 51]
     \<and> map (fst \<circ> snd) reports = lossHistory"
  using trainAutoencoder_default_epochs [of
      "\<lparr> tensor2d_ok = (\<lambda>ws. ws \<noteq> []), fit_ok = (\<lambda>ws epochs batchSize. 0 < epochs \<and> 0 < batchSize),
         epoch_loss = (\<lambda>ws b epoch. Some (Fin (1/2))) \<rparr>"
      "replicate 10 (replicate 10 (Fin (1/2)))"
      "\<lparr> epochs = None, batchSize = None, learningRate = None,
         onEpochEnd = Some (\<lambda>epoch loss progress reports. reports @ [(epoch, loss, progress)]) \<rparr>"]
  by (auto simp: list_all_iff)

text \<open>
  The claim as first stated (a default of 60 epochs) fails: without an epoch count, ten
  windows of width 10 give a loss history and progress reports of 50 entries each.
\<close>

theorem trainAutoencoder_default_not_60_counterexample:
  "(case trainAutoencoder
       \<lparr> tensor2d_ok = (\<lambda>ws. True), fit_ok = (\<lambda>ws epochs batchSize. True),
         epoch_loss = (\<lambda>ws b epoch. None) \<rparr>
       (replicate 10 (replicate 10 (Fin (1/2))))
       \<lparr> epochs = None, batchSize = None, learningRate = None,
         onEpochEnd = Some (\<lambda>epoch loss progress reports. reports @ [(epoch, loss, progress)]) \<rparr> []
    of Inl e \<Rightarrow> None
     | Inr (lossHistory, reports) \<Rightarrow> Some (length lossHistory, length reports))
   = Some (50, 50)"
proof -
  let ?tf = "\<lparr> tensor2d_ok = (\<lambda>ws. True), fit_ok = (\<lambda>ws epochs batchSize. True),
         epoch_loss = (\<lambda>ws b epoch. None) \<rparr>"
  let ?ws = "replicate 10 (replicate 10 (Fin (1/2)))"
  let ?cfg = "\<lparr> epochs = None, batchSize = None, learningRate = None,
         onEpochEnd = Some (\<lambda>epoch loss progress reports. reports @ [(epoch, loss, progress)]) \<rparr>"
  have a: "tensor2d_ok ?tf ?ws" by simp
  have b: "list_all (\<lambda>w. length w = 10) ?ws" by (simp add: list_all_iff)
  have c: "fit_ok ?tf ?ws (case epochs ?cfg of None \<Rightarrow> 50 | Some e \<Rightarrow> e)
             (case batchSize ?cfg of None \<Rightarrow> 32 | Some b \<Rightarrow> b)" by simp
  have d: "onEpochEnd ?cfg = Some (\<lambda>epoch loss progress reports. reports @ [(epoch, loss, progress)])"
    by simp
  show ?thesis unfolding trainAutoencoder_logged [OF a b c d] by (simp add: Let_def)
qed

text \<open>
  A window that is not 10 wide never trains: \<open>model.fit\<close> rejects it.
\<close>

lemma trainAutoencoder_width:
  assumes "\<not> list_all (\<lambda>w. length w = 10) ws"
  shows "trainAutoencoder tf ws config s = Inl TensorError
       \<or> trainAutoencoder tf ws config s = Inl FitError"
  using assms by (simp add: trainAutoencoder_def Let_def)

text \<open>
  What \<open>handleTrain\<close> trains on: exactly the windows whose index is the index of a
  non-anomalous sample, and nothing when there are fewer than 10 of them.
\<close>

lemma handleTrain_windows:
  assumes "handleTrain tf soilData (Some current) view = Trained (ws, lossHistory, view')"
  shows "ws = map (\<lambda>i. normalized current ! i) (normalIndices soilData (normalized current))"
    and "10 \<le> length (normalIndices soilData (normalized current))"
  using assms
  by (auto simp: handleTrain_def Let_def split: if_splits sum.splits prod.splits)

lemma handleTrain_insufficient:
  assumes "soilData \<noteq> []" and "length (normalIndices soilData (normalized current)) < 10"
  shows "handleTrain tf soilData (Some current) view = TrainingFailed NotEnoughNormalData"
  using assms by (simp add: handleTrain_def Let_def)

lemma handleTrain_trains:
  assumes "soilData \<noteq> []" and "10 \<le> length (normalIndices soilData (normalized current))"
    and "tensor2d_ok tf (map (\<lambda>i. normalized current ! i) (normalIndices soilData (normalized current)))"
    and "list_all (\<lambda>w. length w = 10)
           (map (\<lambda>i. normalized current ! i) (normalIndices soilData (normalized current)))"
    and "fit_ok tf (map (\<lambda>i. normalized current ! i) (normalIndices soilData (normalized current))) 60 32"
  shows "\<exists>lossHistory view'.
           handleTrain tf soilData (Some current) view
             = Trained (map (\<lambda>i. normalized current ! i) (normalIndices soilData (normalized current)),
                        lossHistory, view')
         \<and> length lossHistory = 60"
proof -
  let ?ws = "map (\<lambda>i. normalized current ! i) (normalIndices soilData (normalized current))"
  let ?cfg = "\<lparr> epochs = Some 60, batchSize = Some 32, learningRate = None,
                 onEpochEnd = Some (\<lambda>epoch loss progress v.
                   v \<lparr> trainingProgress := progress, trainingLoss := loss \<rparr>) \<rparr>"
  let ?v0 = "view \<lparr> trainingProgress := 0, isTrained := False \<rparr>"
  obtain h v where r: "trainAutoencoder tf ?ws ?cfg ?v0 = Inr (h, v)" "length h = 60"
    using trainAutoencoder_run [of tf ?ws ?cfg ?v0] assms(3,4,5) by (simp add: Let_def)
  have "handleTrain tf soilData (Some current) view = Trained (?ws, h, v \<lparr> isTrained := True \<rparr>)"
    using assms(1,2) r(1) by (simp add: handleTrain_def Let_def)
  then show ?thesis using r(2) by blast
qed

text \<open>
  Claim C1 against the code. \<open>handleTrain\<close> keeps window \<open>i\<close> when sample \<open>i\<close>, the first
  sample of the window, is not anomalous; the centre of window \<open>i\<close> is sample \<open>i + 5\<close>. On a
  series of 100 samples with the anomalies at 25..32, it trains on windows 20..24, whose
  centres 25..29 are anomalous, and leaves out windows 28..32, whose centres 33..37 are
  normal.
\<close>

theorem handleTrain_selects_by_first_sample:
  "set (normalIndices
      (map (\<lambda>i. \<lparr> SoilDataPoint.timestamp = int i, moisture = (if 25 \<le> i \<and> i < 33 then 85 else 50 :: real),
                  SoilDataPoint.isAnomaly = (25 \<le> i \<and> i < 33) \<rparr>) [0 ..< 100])
      (normalized (normalizeWindows (map (map Fin) (createWindows
         (map moisture
            (map (\<lambda>i. \<lparr> SoilDataPoint.timestamp = int i, moisture = (if 25 \<le> i \<and> i < 33 then 85 else 50 :: real),
                        SoilDataPoint.isAnomaly = (25 \<le> i \<and> i < 33) \<rparr>) [0 ..< 100])) 10)))))
     = {0 ..< 25} \<union> {33 ..< 91}
   \<and> SoilDataPoint.isAnomaly ((map (\<lambda>i. \<lparr> SoilDataPoint.timestamp = int i, moisture = (if 25 \<le> i \<and> i < 33 then 85 else 50 :: real),
                  SoilDataPoint.isAnomaly = (25 \<le> i \<and> i < 33) \<rparr>) [0 ..< 100]) ! (20 + 5))
   \<and> \<not> SoilDataPoint.isAnomaly ((map (\<lambda>i. \<lparr> SoilDataPoint.timestamp = int i, moisture = (if 25 \<le> i \<and> i < 33 then 85 else 50 :: real),
                  SoilDataPoint.isAnomaly = (25 \<le> i \<and> i < 33) \<rparr>) [0 ..< 100]) ! (28 + 5))"
proof -
  define soil where "soil = map (\<lambda>i. \<lparr> SoilDataPoint.timestamp = int i,
      moisture = (if 25 \<le> i \<and> i < 33 then 85 else 50 :: real),
      SoilDataPoint.isAnomaly = (25 \<le> i \<and> i < 33) \<rparr>) [0 ..< 100]"
  have len: "length soil = 100" by (simp add: soil_def)
  have flag: "SoilDataPoint.isAnomaly (soil ! i) = (25 \<le> i \<and> i < 33)" if "i < 100" for i
    using that by (simp add: soil_def)
  have "length (createWindows (map moisture soil) 10) = 91"
    by (simp add: createWindows_map len)
  then have nlen: "length (normalized (normalizeWindows (map (map Fin) (createWindows (map moisture soil) 10)))) = 91"
    by (simp only: length_normalized length_map)
  have "set (normalIndices soil (normalized (normalizeWindows (map (map Fin) (createWindows (map moisture soil) 10)))))
          = {i. i < 100 \<and> \<not> (25 \<le> i \<and> i < 33) \<and> i < 91}"
    unfolding normalIndices_def nlen len using flag by auto
  also have "\<dots> = {0 ..< 25} \<union> {33 ..< 91}" by auto
  finally have a: "set (normalIndices soil (normalized (normalizeWindows (map (map Fin) (createWindows (map moisture soil) 10)))))
          = {0 ..< 25} \<union> {33 ..< 91}" .
  have b: "SoilDataPoint.isAnomaly (soil ! (20 + 5))" using flag [of "20 + 5"] by simp
  have c: "\<not> SoilDataPoint.isAnomaly (soil ! (28 + 5))" using flag [of "28 + 5"] by simp
  show ?thesis using a b c unfolding soil_def by blast
qed

subsection \<open>Anomaly classifier and metrics evaluator\<close>

lemma js_mul_two_commute: "js_mul threshold (Fin 2) = js_mul (Fin 2) threshold"
  by (cases threshold) (auto simp: mult.commute)

lemma detectAnomalies_enum:
  "detectAnomalies errors threshold windowSize =
     map (\<lambda>i. \<lparr> windowIndex = i,
                timestampCenter = int i + \<lfloor>windowSize / 2\<rfloor>,
                reconstructionError = errors ! i,
                isAnomaly = js_gt (Fin (errors ! i)) threshold,
                confidence = js_toFixedNum 3
                  (if js_gt (Fin (errors ! i)) threshold
                   then js_min (Fin 1) (js_div (Fin (errors ! i)) (js_mul (Fin 2) threshold))
                   else js_min (Fin 1) (js_sub (Fin 1) (js_div (Fin (errors ! i)) threshold))) \<rparr>)
       [0 ..< length errors]"
  unfolding detectAnomalies_def enumerate_eq_zip
  by (rule nth_equalityI) (simp_all add: Let_def js_mul_two_commute)

lemma isAnomaly_detectAnomalies:
  "map isAnomaly (detectAnomalies errors threshold windowSize) = map (\<lambda>e. js_gt (Fin e) threshold) errors"
  unfolding detectAnomalies_enum by (rule nth_equalityI) simp_all









text \<open>
  Claim C8. With threshold \<open>+infinity\<close> no result is flagged as an anomaly; with threshold
  \<open>0\<close> there is one result per error and a window is flagged exactly when its error is
  strictly greater than \<open>0\<close>.
\<close>

theorem detectAnomalies_threshold_extremes:
  "filter isAnomaly (detectAnomalies errors PosInf windowSize) = []
   \<and> length (detectAnomalies errors (Fin 0) windowSize) = length errors
   \<and> map isAnomaly (detectAnomalies errors (Fin 0) windowSize) = map (\<lambda>e. e > 0) errors"
proof -
  have "map isAnomaly (detectAnomalies errors PosInf windowSize) = map (\<lambda>e. False) errors"
    by (simp add: isAnomaly_detectAnomalies)
  then have "\<forall>b \<in> set (map isAnomaly (detectAnomalies errors PosInf windowSize)). \<not> b"
    by simp
  then have "filter isAnomaly (detectAnomalies errors PosInf windowSize) = []"
    by (simp add: filter_empty_conv)
  moreover have "length (detectAnomalies errors (Fin 0) windowSize) = length errors"
    by (simp add: detectAnomalies_def)
  moreover have "map isAnomaly (detectAnomalies errors (Fin 0) windowSize) = map (\<lambda>e. e > 0) errors"
    by (simp add: isAnomaly_detectAnomalies)
  ultimately show ?thesis by blast
qed

theorem detectAnomalies_threshold_extremes_witness:
  "filter isAnomaly (detectAnomalies [0, 1 / 100] PosInf 10) = []
   \<and> map isAnomaly (detectAnomalies [0, 1 / 100] (Fin 0) 10) = [False, True]"
  using detectAnomalies_threshold_extremes [of "[0, 1 / 100]" 10]
  by simp

lemma fold_tally_exact:
  assumes "\<forall>d \<in> set ds. isAnomaly d
             = groundTruth_at gt (min (timestampCenter d) (int (length gt) - 1))"
  shows "fold (tally gt) ds (tp, tn, fp, fn)
           = (tp + length (filter isAnomaly ds), tn + length (filter (\<lambda>d. \<not> isAnomaly d) ds), fp, fn)"
  using assms
proof (induction ds arbitrary: tp tn)
  case Nil
  show ?case by simp
next
  case (Cons d ds)
  then show ?case by (simp add: tally_def Let_def)
qed

lemma toFixedNum_100: "toFixedNum 1 100 = 100" "toFixedNum (Suc 0) 100 = 100"
  by (simp_all add: toFixedNum_def rnd_100)

lemma toFixedNum_0: "toFixedNum d 0 = 0"
  by (simp add: toFixedNum_def rnd_0)

lemma computeMetrics_fields:
  assumes "fold (tally gt) ds (0, 0, 0, 0) = (tp, tn, fp, fn)"
  shows "accuracy (computeMetrics ds gt w)
           = toFixedNum 1 (rnd ((if tp + tn + fp + fn > 0
                                 then rnd (real (tp + tn) / real (tp + tn + fp + fn)) else 0) * 100))"
    and "precision (computeMetrics ds gt w)
           = toFixedNum 1 (rnd ((if tp + fp > 0 then rnd (real tp / real (tp + fp)) else 0) * 100))"
    and "recall (computeMetrics ds gt w)
           = toFixedNum 1 (rnd ((if tp + fn > 0 then rnd (real tp / real (tp + fn)) else 0) * 100))"
    and "falsePositives (computeMetrics ds gt w) = fp"
    and "falseNegatives (computeMetrics ds gt w) = fn"
    and "f1Score (computeMetrics ds gt w)
           = toFixedNum 1
               (rnd ((let precision = (if tp + fp > 0 then rnd (real tp / real (tp + fp)) else 0);
                          recall = (if tp + fn > 0 then rnd (real tp / real (tp + fn)) else 0)
                      in if rnd (precision + recall) > 0
                         then rnd (rnd (rnd (2 * precision) * recall) / rnd (precision + recall))
                         else 0) * 100))"
  unfolding computeMetrics_def assms by (simp_all only: Let_def prod.case PerformanceMetrics.simps)

text \<open>
  Claim C4, as amended. When there is at least one detection and every detection's flag
  equals the ground truth at \<open>min timestampCenter (length groundTruth - 1)\<close>, the evaluator
  reports accuracy 100, no false positives and no false negatives; precision, recall and F1
  are 100 when some detection is an anomaly, and 0 when none is (their denominators are then
  zero and the evaluator returns 0).
\<close>

theorem computeMetrics_exact:
  assumes nonempty: "detections \<noteq> []"
    and exact: "\<forall>d \<in> set detections. isAnomaly d
             = groundTruth_at groundTruth (min (timestampCenter d) (int (length groundTruth) - 1))"
  shows "accuracy (computeMetrics detections groundTruth windowSize) = 100
       \<and> falsePositives (computeMetrics detections groundTruth windowSize) = 0
       \<and> falseNegatives (computeMetrics detections groundTruth windowSize) = 0
       \<and> precision (computeMetrics detections groundTruth windowSize)
           = (if \<exists>d \<in> set detections. isAnomaly d then 100 else 0)
       \<and> recall (computeMetrics detections groundTruth windowSize)
           = (if \<exists>d \<in> set detections. isAnomaly d then 100 else 0)
       \<and> f1Score (computeMetrics detections groundTruth windowSize)
           = (if \<exists>d \<in> set detections. isAnomaly d then 100 else 0)"
proof -
  let ?a = "length (filter isAnomaly detections)"
  let ?b = "length (filter (\<lambda>d. \<not> isAnomaly d) detections)"
  have f: "fold (tally groundTruth) detections (0, 0, 0, 0) = (?a, ?b, 0, 0)"
    using fold_tally_exact [OF exact, of 0 0 0 0] by simp
  have tot: "?a + ?b = length detections"
    by (rule sum_length_filter_compl)
  have pos: "0 < ?a + ?b" using tot nonempty by simp
  have a: "(\<exists>d \<in> set detections. isAnomaly d) \<longleftrightarrow> 0 < ?a"
    by (metis filter_empty_conv length_greater_0_conv)
  let ?m = "computeMetrics detections groundTruth windowSize"
  let ?p = "if 0 < ?a then (1::real) else 0"
  have "real (?a + ?b) \<noteq> 0" using pos by linarith
  then have one: "real (?a + ?b) / real (?a + ?b) = 1" by (rule divide_self)
  have acc_ratio: "(if ?a + ?b + 0 + 0 > 0 then rnd (real (?a + ?b) / real (?a + ?b + 0 + 0)) else 0) = 1"
    using pos one by (simp add: rnd_1)
  have ratio: "(if ?a + 0 > 0 then rnd (real ?a / real (?a + 0)) else 0) = ?p"
    by (simp add: rnd_1)
  have harmonic: "(if rnd (?p + ?p) > 0 then rnd (rnd (rnd (2 * ?p) * ?p) / rnd (?p + ?p)) else 0) = ?p"
    by (simp add: rnd_0 rnd_1 rnd_2)
  have percent: "toFixedNum 1 (rnd (?p * 100)) = (if \<exists>d \<in> set detections. isAnomaly d then 100 else 0)"
    using a by (simp add: rnd_0 rnd_100 toFixedNum_100 toFixedNum_0)
  have full: "toFixedNum 1 (rnd (1 * 100)) = 100"
    by (simp add: rnd_100 toFixedNum_100)
  have acc: "accuracy ?m = 100"
    unfolding computeMetrics_fields(1) [OF f] acc_ratio by (rule full)
  have prec: "precision ?m = (if \<exists>d \<in> set detections. isAnomaly d then 100 else 0)"
    unfolding computeMetrics_fields(2) [OF f] ratio by (rule percent)
  have rec: "recall ?m = (if \<exists>d \<in> set detections. isAnomaly d then 100 else 0)"
    unfolding computeMetrics_fields(3) [OF f] ratio by (rule percent)
  have f1: "f1Score ?m = (if \<exists>d \<in> set detections. isAnomaly d then 100 else 0)"
    unfolding computeMetrics_fields(6) [OF f] Let_def ratio harmonic by (rule percent)
  have fpn: "falsePositives ?m = 0" "falseNegatives ?m = 0"
    using computeMetrics_fields(4,5) [OF f, of windowSize] by simp_all
  show ?thesis using acc fpn prec rec f1 by simp
qed

theorem computeMetrics_exact_witness:
  "accuracy (computeMetrics
      [\<lparr> windowIndex = 0, timestampCenter = 1, reconstructionError = 0,
          isAnomaly = False, confidence = Fin 1 \<rparr>,
       \<lparr> windowIndex = 1, timestampCenter = 2, reconstructionError = 1 / 10,
          isAnomaly = True, confidence = Fin 1 \<rparr>] [False, False, True] 2) = 100
   \<and> precision (computeMetrics
      [\<lparr> windowIndex = 0, timestampCenter = 1, reconstructionError = 0,
          isAnomaly = False, confidence = Fin 1 \<rparr>,
       \<lparr> windowIndex = 1, timestampCenter = 2, reconstructionError = 1 / 10,
          isAnomaly = True, confidence = Fin 1 \<rparr>] [False, False, True] 2) = 100
   \<and> f1Score (computeMetrics
      [\<lparr> windowIndex = 0, timestampCenter = 1, reconstructionError = 0,
          isAnomaly = False, confidence = Fin 1 \<rparr>,
       \<lparr> windowIndex = 1, timestampCenter = 2, reconstructionError = 1 / 10,
          isAnomaly = True, confidence = Fin 1 \<rparr>] [False, False, True] 2) = 100"
  using computeMetrics_exact [of
      "[\<lparr> windowIndex = 0, timestampCenter = 1, reconstructionError = 0,
          isAnomaly = False, confidence = Fin 1 \<rparr>,
        \<lparr> windowIndex = 1, timestampCenter = 2, reconstructionError = 1 / 10,
          isAnomaly = True, confidence = Fin 1 \<rparr>]" "[False, False, True]" 2]
  by (simp add: groundTruth_at_def)

text \<open>
  The claim as first stated fails when no detection is an anomaly: a single normal window
  over an all-normal ground truth reproduces it exactly, and precision, recall and F1 are 0.
\<close>

theorem computeMetrics_all_normal_counterexample:
  "isAnomaly \<lparr> windowIndex = 0, timestampCenter = 1, reconstructionError = 0,
       isAnomaly = False, confidence = Fin 1 \<rparr>
     = groundTruth_at [False, False]
         (min (timestampCenter \<lparr> windowIndex = 0, timestampCenter = 1, reconstructionError = 0,
                 isAnomaly = False, confidence = Fin 1 \<rparr>) (int (length [False, False]) - 1))
   \<and> accuracy (computeMetrics
        [\<lparr> windowIndex = 0, timestampCenter = 1, reconstructionError = 0,
            isAnomaly = False, confidence = Fin 1 \<rparr>] [False, False] 10) = 100
   \<and> precision (computeMetrics
        [\<lparr> windowIndex = 0, timestampCenter = 1, reconstructionError = 0,
            isAnomaly = False, confidence = Fin 1 \<rparr>] [False, False] 10) = 0
   \<and> recall (computeMetrics
        [\<lparr> windowIndex = 0, timestampCenter = 1, reconstructionError = 0,
            isAnomaly = False, confidence = Fin 1 \<rparr>] [False, False] 10) = 0
   \<and> f1Score (computeMetrics
        [\<lparr> windowIndex = 0, timestampCenter = 1, reconstructionError = 0,
            isAnomaly = False, confidence = Fin 1 \<rparr>] [False, False] 10) = 0"
  by (simp add: computeMetrics_def tally_def groundTruth_at_def Let_def
      rnd_0 rnd_1 rnd_100 toFixedNum_100 toFixedNum_0)

subsection \<open>Insight engine\<close>

lemma insertCmp_insort_key:
  "insertCmp (\<lambda>a b. f a - f b) x ys = insort_key f x ys"
  by (induction ys) simp_all

lemma sortCmp_sort_key:
  "sortCmp (\<lambda>a b. f a - f b) xs = sort_key f xs"
  by (induction xs) (simp_all add: insertCmp_insort_key)

lemma slice_prefix: "0 \<le> n \<Longrightarrow> slice xs 0 n = take (nat n) xs"
  by (simp add: slice_def Let_def min_def)

lemma sorted_take_map: "sorted (map f xs) \<Longrightarrow> sorted (map f (take n xs))"
  by (simp add: take_map [symmetric] sorted_wrt_take)

text \<open>
  Claim C5. The engine returns at most 8 insights; they are the first 8 of the stable sort
  by severity rank of the insights that the rules emitted (none for an empty series), so
  their ranks are nondecreasing, and the sort keeps insights of equal rank in rule order
  and neither drops nor adds any.
\<close>

theorem generateInsights_ranked:
  "length (generateInsights fmt now data detections threshold) \<le> 8
   \<and> sorted (map (\<lambda>x. order (type x)) (generateInsights fmt now data detections threshold))
   \<and> generateInsights fmt now data detections threshold
       = take 8 (sort_key (\<lambda>x. order (type x))
           (if length data = 0 then [] else ruleInsights fmt now data detections threshold))
   \<and> sorted (map (\<lambda>x. order (type x)) (sort_key (\<lambda>x. order (type x))
           (if length data = 0 then [] else ruleInsights fmt now data detections threshold)))
   \<and> (\<forall>k. filter (\<lambda>x. order (type x) = k)
             (sort_key (\<lambda>x. order (type x))
                (if length data = 0 then [] else ruleInsights fmt now data detections threshold))
          = filter (\<lambda>x. order (type x) = k)
             (if length data = 0 then [] else ruleInsights fmt now data detections threshold))
   \<and> length (sort_key (\<lambda>x. order (type x))
           (if length data = 0 then [] else ruleInsights fmt now data detections threshold))
       = length (if length data = 0 then [] else ruleInsights fmt now data detections threshold)"
proof -
  define rank where "rank = (\<lambda>x::Insight. order (type x))"
  define emitted where
    "emitted = (if length data = 0 then [] else ruleInsights fmt now data detections threshold)"
  define result where "result = generateInsights fmt now data detections threshold"
  have res: "result = take 8 (sort_key rank emitted)"
    unfolding result_def generateInsights_def emitted_def rank_def
    by (simp add: sortCmp_sort_key slice_prefix)
  have s: "sorted (map rank (sort_key rank emitted))" by (rule sorted_sort_key)
  have c1: "length result \<le> 8" by (simp add: res)
  have c2: "sorted (map rank result)" unfolding res using s by (rule sorted_take_map)
  have c5: "\<forall>k. filter (\<lambda>x. rank x = k) (sort_key rank emitted) = filter (\<lambda>x. rank x = k) emitted"
    by (simp add: sort_key_stable)
  have c6: "length (sort_key rank emitted) = length emitted" by (rule length_sort)
  show ?thesis
    using c1 c2 res s c5 c6 unfolding rank_def emitted_def result_def by blast
qed

theorem generateInsights_ranked_witness:
  "map id (generateInsights \<lparr> toFixed = (\<lambda>digits x. ''n''), toString = (\<lambda>i. ''i'') \<rparr> 0
      [\<lparr> SoilDataPoint.timestamp = 0, moisture = 40, SoilDataPoint.isAnomaly = False \<rparr>,
       \<lparr> SoilDataPoint.timestamp = 1, moisture = 65, SoilDataPoint.isAnomaly = False \<rparr>]
      [] (Fin (2 / 100)))
     = [''spike-i'', ''optimal-moisture'', ''stable'']
   \<and> map type (generateInsights \<lparr> toFixed = (\<lambda>digits x. ''n''), toString = (\<lambda>i. ''i'') \<rparr> 0
      [\<lparr> SoilDataPoint.timestamp = 0, moisture = 40, SoilDataPoint.isAnomaly = False \<rparr>,
       \<lparr> SoilDataPoint.timestamp = 1, moisture = 65, SoilDataPoint.isAnomaly = False \<rparr>]
      [] (Fin (2 / 100)))
     = [Warning, Info, Success]"
proof -
  let ?fmt = "\<lparr> toFixed = (\<lambda>digits x. ''n''), toString = (\<lambda>i. ''i'') \<rparr>"
  let ?data = "[\<lparr> SoilDataPoint.timestamp = 0, moisture = 40 :: real, SoilDataPoint.isAnomaly = False \<rparr>,
       \<lparr> SoilDataPoint.timestamp = 1, moisture = 65, SoilDataPoint.isAnomaly = False \<rparr>]"
  have r: "map (\<lambda>x. (id x, type x)) (ruleInsights ?fmt 0 ?data [] (Fin (2 / 100)))
             = [(''stable'', Success), (''spike-i'', Warning), (''optimal-moisture'', Info)]"
    by (simp add: ruleInsights_def spikeInsights_def trendInsights_def levelInsights_def
        thresholdInsights_def clusterScan.simps slice_def Let_def)
  from generateInsights_ranked [of ?fmt 0 ?data "[]" "Fin (2 / 100)"]
  have g: "generateInsights ?fmt 0 ?data [] (Fin (2 / 100))
       = take 8 (sort_key (\<lambda>x. order (type x)) (ruleInsights ?fmt 0 ?data [] (Fin (2 / 100))))"
    by simp
  obtain a b c where abc: "ruleInsights ?fmt 0 ?data [] (Fin (2 / 100)) = [a, b, c]"
    "id a = ''stable''" "type a = Success" "id b = ''spike-i''" "type b = Warning"
    "id c = ''optimal-moisture''" "type c = Info"
    using r by (auto simp: map_eq_Cons_conv)
  show ?thesis unfolding g abc(1) using abc(2-) by simp
qed

end
